theory Spec2Isabelle
  imports Main
begin

section \<open>The Krita host bridge of gmic-qt (host\_krita.cpp)\<close>

text \<open>
  The file \<^verbatim>\<open>src/gmic-qt/src/Host/Krita/host_krita.cpp\<close> is the client side of a
  request/response protocol between the plugin and Krita: a textual command goes out over
  a local socket, a textual answer comes back, and image data travels through named
  shared-memory segments. This theory embeds its four functions
  (\<^verbatim>\<open>sendMessageSynchronously\<close>, \<^verbatim>\<open>getLayersExtent\<close>,
  \<^verbatim>\<open>getCroppedImages\<close>, \<^verbatim>\<open>outputImages\<close>) and states the properties of
  the specification about them.

  Strings are lists of 8-bit characters. The commands and answers of the protocol are
  ASCII text, for which a \<^verbatim>\<open>QString\<close> and the bytes it is made from are the same list.
\<close>

subsection \<open>The Qt string functions the code calls\<close>

text \<open>
  \<^verbatim>\<open>QString::split(sep, Qt::SkipEmptyParts)\<close>: the pieces between the separators, in
  order, without the empty ones. \<open>splitKeep\<close> is the split that keeps empty pieces. The
  code writes the flag as the macro \<^verbatim>\<open>QT_SKIP_EMPTY_PARTS\<close> of Common.h, which is not
  among the sources and is taken by its name.
\<close>

fun splitKeep :: "char \<Rightarrow> string \<Rightarrow> string list" where
  "splitKeep sep [] = [[]]"
| "splitKeep sep (c # cs) =
     (if c = sep then [] # splitKeep sep cs
      else (case splitKeep sep cs of [] \<Rightarrow> [[c]] | p # ps \<Rightarrow> (c # p) # ps))"

definition splitSkipEmpty :: "string \<Rightarrow> char \<Rightarrow> string list" where
  "splitSkipEmpty s sep = filter (\<lambda>p. p \<noteq> []) (splitKeep sep s)"

text \<open>
  \<^verbatim>\<open>QString::toInt()\<close> (base 10): white space is trimmed at both ends, one sign may
  precede the digits, there is at least one digit and nothing else, and the value fits a
  32-bit signed \<^verbatim>\<open>int\<close>. Every other string converts to 0.
\<close>

definition isSpace :: "char \<Rightarrow> bool" where
  "isSpace c = (c = CHR '' '' \<or> (9 \<le> (of_char c :: nat) \<and> (of_char c :: nat) \<le> 13)
      \<or> c = CHR 0x85 \<or> c = CHR 0xA0)"

definition isDigit :: "char \<Rightarrow> bool" where
  "isDigit c = (48 \<le> (of_char c :: nat) \<and> (of_char c :: nat) \<le> 57)"

definition trimmed :: "string \<Rightarrow> string" where
  "trimmed s = rev (dropWhile isSpace (rev (dropWhile isSpace s)))"

fun digitsValue :: "string \<Rightarrow> int \<Rightarrow> int option" where
  "digitsValue [] acc = Some acc"
| "digitsValue (c # cs) acc =
     (if isDigit c then digitsValue cs (acc * 10 + ((of_char c :: int) - 48)) else None)"

definition INT_MIN :: int where "INT_MIN = - (2 ^ 31)"
definition INT_MAX :: int where "INT_MAX = 2 ^ 31 - 1"

definition toInt :: "string \<Rightarrow> int" where
  "toInt s =
     (case trimmed s of
        [] \<Rightarrow> 0
      | c # cs \<Rightarrow>
          (let negative = (c = CHR ''-'');
               ds = (if c = CHR ''-'' \<or> c = CHR ''+'' then cs else c # cs)
           in if ds = [] then 0
              else (case digitsValue ds 0 of
                      None \<Rightarrow> 0
                    | Some n \<Rightarrow>
                        (let v = (if negative then - n else n)
                         in if INT_MIN \<le> v \<and> v \<le> INT_MAX then v else 0))))"

text \<open>\<^verbatim>\<open>QString::arg(int)\<close> and \<^verbatim>\<open>arg(uint)\<close>: the decimal digits, with a minus sign
  for a negative number.\<close>

fun natToString :: "nat \<Rightarrow> string" where
  "natToString n =
     (if n < 10 then [''0123456789'' ! n]
      else natToString (n div 10) @ [''0123456789'' ! (n mod 10)])"

declare natToString.simps [simp del]

definition intToString :: "int \<Rightarrow> string" where
  "intToString i = (if i < 0 then CHR ''-'' # natToString (nat (- i)) else natToString (nat i))"

text \<open>
  \<^verbatim>\<open>QByteArray::fromHex\<close>: characters that are not hexadecimal digits are skipped; the
  digits are paired from the right, so with an odd number of digits the first digit is a
  byte of its own. \<^verbatim>\<open>QByteArray::toHex\<close>: two lower-case digits for each byte.
\<close>

definition hexValue :: "char \<Rightarrow> nat option" where
  "hexValue c =
     (let n = (of_char c :: nat)
      in if 48 \<le> n \<and> n \<le> 57 then Some (n - 48)
         else if 97 \<le> n \<and> n \<le> 102 then Some (n - 87)
         else if 65 \<le> n \<and> n \<le> 70 then Some (n - 55)
         else None)"

fun pairUp :: "nat list \<Rightarrow> string" where
  "pairUp (a # b # ds) = char_of (a * 16 + b) # pairUp ds"
| "pairUp [a] = [char_of a]"
| "pairUp [] = []"

definition fromHex :: "string \<Rightarrow> string" where
  "fromHex s =
     (let ds = List.map_filter hexValue s
      in if odd (length ds) then char_of (hd ds) # pairUp (tl ds) else pairUp ds)"

definition toHex :: "string \<Rightarrow> string" where
  "toHex s =
     concat (map (\<lambda>c. [''0123456789abcdef'' ! ((of_char c :: nat) div 16),
                        ''0123456789abcdef'' ! ((of_char c :: nat) mod 16)]) s)"

text \<open>A \<^verbatim>\<open>const char *\<close> read as a C string ends before its first NUL byte.\<close>

definition cstring :: "string \<Rightarrow> string" where
  "cstring s = takeWhile (\<lambda>c. c \<noteq> CHR 0x00) s"

text \<open>\<^verbatim>\<open>QList::operator[]\<close> asserts \<open>0 \<le> i < size\<close>; an index out of range is an error
  of the model.\<close>

datatype error = IndexOutOfRange | BadImageSize | ReadPastSegment

definition at :: "'b list \<Rightarrow> nat \<Rightarrow> error + 'b" where
  "at xs i = (if i < length xs then Inr (xs ! i) else Inl IndexOutOfRange)"

subsection \<open>Images, shared segments and the state of the process\<close>

text \<open>
  A \<^verbatim>\<open>gmic_image<float>\<close> has four unsigned dimensions and a buffer of samples. The
  samples are of any type \<open>'a\<close>: the code only copies them.
\<close>

record 'a gmic_image =
  img_width :: nat
  img_height :: nat
  img_depth :: nat
  img_spectrum :: nat
  img_data :: "'a list"

definition emptyImage :: "'a gmic_image" where
  "emptyImage = \<lparr>img_width = 0, img_height = 0, img_depth = 0, img_spectrum = 0, img_data = []\<rparr>"

text \<open>
  Modelled from the spec: \<^verbatim>\<open>gmic_image::assign(w, h, d, s)\<close> is defined in CImg.h, which
  is not among the sources. The spec has it allocate the image buffer of the given
  dimensions; in CImg a buffer without any sample is the empty image, whose dimensions are
  all 0. The samples of a fresh buffer are not initialised: the buffer is written by the
  copy that follows the call.
\<close>

definition assign :: "nat \<Rightarrow> nat \<Rightarrow> nat \<Rightarrow> nat \<Rightarrow> 'a gmic_image" where
  "assign w h d s =
     (if w * h * d * s = 0 then emptyImage
      else \<lparr>img_width = w, img_height = h, img_depth = d, img_spectrum = s, img_data = []\<rparr>)"

text \<open>
  A \<^verbatim>\<open>QSharedMemory\<close> object made by \<^verbatim>\<open>new\<close>. Objects are never reused: the heap
  is the list of all objects made so far, a pointer is an index into it, and
  \<^verbatim>\<open>delete\<close> marks the object.
\<close>

record 'a QSharedMemory =
  shm_key :: string
  shm_attached :: bool
  shm_deleted :: bool
  shm_data :: "'a list"

text \<open>
  The state: the heap, the static vector \<^verbatim>\<open>sharedMemorySegments\<close>, the number of
  UUIDs drawn so far, the commands handed to \<^verbatim>\<open>sendMessageSynchronously\<close> and the
  lines written with \<^verbatim>\<open>qWarning\<close>, both in order.
\<close>

record 'a world =
  heap :: "'a QSharedMemory list"
  sharedMemorySegments :: "nat list"
  uuids :: nat
  sent :: "string list"
  warnings :: "string list"

text \<open>
  What the code cannot decide is a parameter: the answer of the host to the \<open>n\<close>-th
  command (empty when the exchange fails), the segments the host has set up, by key
  (attaching succeeds when the key names one), whether locking, unlocking and detaching
  succeed, the UUIDs \<^verbatim>\<open>QUuid::createUuid\<close> returns, whether \<^verbatim>\<open>QSharedMemory::create\<close>
  succeeds for a key and a size in bytes, and the text \<^verbatim>\<open>QString::arg(double)\<close> gives
  for a \<^verbatim>\<open>double\<close>. The type \<open>'d\<close> of doubles is any type with \<open>0\<close>, \<open>1\<close> and
  an order: the code only compares them with 0 and prints them. The last two parameters
  are what \<^verbatim>\<open>gmic_list::assign(n)\<close> (CImg.h, not among the sources) leaves in the entry
  of index \<open>i\<close> of the list of images and of the list of names: the empty image and the
  empty name in a list that is allocated afresh.
\<close>

record ('a, 'd) env =
  host :: "nat \<Rightarrow> string \<Rightarrow> string"
  segments :: "string \<Rightarrow> 'a list option"
  lock_ok :: "string \<Rightarrow> bool"
  unlock_ok :: "string \<Rightarrow> bool"
  detach_ok :: "string \<Rightarrow> bool"
  createUuid :: "nat \<Rightarrow> string"
  create_ok :: "string \<Rightarrow> nat \<Rightarrow> bool"
  formatDouble :: "'d \<Rightarrow> string"
  imageSlot :: "nat \<Rightarrow> 'a gmic_image"
  nameSlot :: "nat \<Rightarrow> string"

definition qWarning :: "string \<Rightarrow> 'a world \<Rightarrow> 'a world" where
  "qWarning msg w = w\<lparr>warnings := warnings w @ [msg]\<rparr>"

text \<open>
  A call of \<^verbatim>\<open>sendMessageSynchronously\<close> as its three callers see it, when it returns:
  the command goes out, an answer comes back. The exchange itself, over the socket, is
  \<open>sendMessageSynchronously\<close> below.
\<close>

definition request :: "('a, 'd) env \<Rightarrow> string \<Rightarrow> 'a world \<Rightarrow> string \<times> 'a world" where
  "request e command w = (host e (length (sent w)) command, w\<lparr>sent := sent w @ [command]\<rparr>)"

subsection \<open>getLayersExtent\<close>

text \<open>
  Lines 130 to 146. The two results are the values the function stores through its two
  pointers. The mode is the integer that the cast \<^verbatim>\<open>(int)mode\<close> gives: the enumeration
  is declared in GmicQt.h, which is not among the sources.
\<close>

definition getLayersExtent :: "('a, 'd) env \<Rightarrow> int \<Rightarrow> 'a world \<Rightarrow> (int \<times> int) \<times> 'a world" where
  "getLayersExtent e mode w =
     (let command = ''command=gmic_qt_get_image_size'' @ [CHR 0x0A] @ ''mode='' @ intToString mode;
          (answer, w1) = request e command w
      in if length answer > 0
         then (let wh = splitSkipEmpty answer (CHR '','')
               in if length wh = 2 then ((toInt (wh ! 0), toInt (wh ! 1)), w1)
                  else ((0, 0), w1))
         else ((0, 0), w1))"

subsection \<open>getCroppedImages\<close>

text \<open>Lines 153 to 159: the rectangle whose four values are all negative stands for the
  entire image.\<close>

definition cropRect :: "'d::{zero,one,ord} \<Rightarrow> 'd \<Rightarrow> 'd \<Rightarrow> 'd \<Rightarrow> 'd \<times> 'd \<times> 'd \<times> 'd" where
  "cropRect x y width height =
     (let entireImage = (x < 0 \<and> y < 0 \<and> width < 0 \<and> height < 0)
      in if entireImage then (0, 0, 1, 1) else (x, y, width, height))"

text \<open>Line 162: the message for Krita, the place markers filled in.\<close>

definition cropMessage :: "('a, 'd) env \<Rightarrow> 'd \<times> 'd \<times> 'd \<times> 'd \<Rightarrow> int \<Rightarrow> string" where
  "cropMessage e r mode =
     (case r of (x, y, width, height) \<Rightarrow>
        ''command=gmic_qt_get_cropped_images'' @ [CHR 0x0A] @ ''mode='' @ intToString mode
        @ [CHR 0x0A] @ ''croprect='' @ formatDouble e x @ '','' @ formatDouble e y @ '',''
        @ formatDouble e width @ '','' @ formatDouble e height)"

text \<open>The fields of a line of the answer, as line 186 splits it.\<close>

abbreviation fieldsOf :: "string \<Rightarrow> string list" where
  "fieldsOf layer \<equiv> splitSkipEmpty layer (CHR '','')"

text \<open>
  The variables of the two loops: the local lists \<^verbatim>\<open>memoryKeys\<close> and \<^verbatim>\<open>sizes\<close>, the
  two lists the caller passes by reference, and the warnings written so far.
\<close>

record 'a crop =
  memoryKeys :: "string list"
  sizes :: "(int \<times> int) list"
  images :: "'a gmic_image list"
  imageNames :: "string list"
  cropWarnings :: "string list"

definition warn :: "string \<Rightarrow> 'a crop \<Rightarrow> 'a crop" where
  "warn msg c = c\<lparr>cropWarnings := cropWarnings c @ [msg]\<rparr>"

text \<open>
  Lines 185 to 194, the body of the first loop for the line \<open>layer\<close> of index \<open>i\<close>.
  The warning about a wrong number of fields does not leave the loop: the four fields are
  read whatever their number is.
\<close>

definition parseLayer :: "nat \<Rightarrow> string \<Rightarrow> 'a crop \<Rightarrow> error option \<times> 'a crop" where
  "parseLayer i layer c =
     (let parts = splitSkipEmpty layer (CHR '','');
          c1 = (if length parts \<noteq> 4 then warn (CHR 0x09 # ''gmic-qt: Got the wrong answer!'') c else c)
      in case at parts 0 of
           Inl err \<Rightarrow> (Some err, c1)
         | Inr p0 \<Rightarrow>
             (let c2 = c1\<lparr>memoryKeys := memoryKeys c1 @ [p0]\<rparr>
              in case at parts 1 of
                   Inl err \<Rightarrow> (Some err, c2)
                 | Inr p1 \<Rightarrow>
                     (let ba = fromHex p1
                      in if \<not> i < length (imageNames c2) then (Some IndexOutOfRange, c2)
                         else (let c3 = c2\<lparr>imageNames := (imageNames c2)[i := cstring ba]\<rparr>
                               in case at parts 2 of
                                    Inl err \<Rightarrow> (Some err, c3)
                                  | Inr p2 \<Rightarrow>
                                      (case at parts 3 of
                                         Inl err \<Rightarrow> (Some err, c3)
                                       | Inr p3 \<Rightarrow>
                                           (None, c3\<lparr>sizes := sizes c3 @ [(toInt p2, toInt p3)]\<rparr>))))))"

fun parseLayers :: "nat \<Rightarrow> string list \<Rightarrow> 'a crop \<Rightarrow> error option \<times> 'a crop" where
  "parseLayers i [] c = (None, c)"
| "parseLayers i (layer # rest) c =
     (case parseLayer i layer c of
        (Some err, c') \<Rightarrow> (Some err, c')
      | (None, c') \<Rightarrow> parseLayers (Suc i) rest c')"

text \<open>
  Lines 214 to 216: a buffer of \<open>width \<times> height \<times> 1 \<times> 4\<close> samples, filled with the first
  \<open>width * height * 4\<close> samples of the segment. The two sizes are \<^verbatim>\<open>int\<close>s. With a
  negative one (the parameters of \<^verbatim>\<open>assign\<close> are unsigned) or a product beyond
  \<^verbatim>\<open>INT_MAX\<close> the buffer and the length of the copy are no longer computed from the same
  numbers, and with a segment shorter than the copy \<^verbatim>\<open>memcpy\<close> reads past its end. The
  model does not follow the code there: these cases are its errors. The allocation of the
  buffer is taken to succeed.
\<close>

definition copyFromSegment :: "int \<Rightarrow> int \<Rightarrow> 'a list \<Rightarrow> error + 'a gmic_image" where
  "copyFromSegment width height seg =
     (if width < 0 \<or> height < 0 \<or> width * height * 4 > INT_MAX then Inl BadImageSize
      else (let gimg = assign (nat width) (nat height) 1 4;
                n = nat (width * height * 4)
            in if length seg < n then Inl ReadPastSegment
               else Inr (gimg\<lparr>img_data := take n seg\<rparr>)))"

text \<open>Lines 201 to 227, the body of the second loop for the key of index \<open>i\<close>.\<close>

definition fillImage :: "('a, 'd) env \<Rightarrow> nat \<Rightarrow> string \<Rightarrow> 'a crop \<Rightarrow> error option \<times> 'a crop" where
  "fillImage e i k c =
     (let c1 = (if segments e k = None
                then warn (CHR 0x09 # ''gmic-qt: Could not attach to shared memory area.'') c else c)
      in case segments e k of
           None \<Rightarrow> (None, warn ''gmic-qt: Could not attach to shared memory area.'' c1)
         | Some seg \<Rightarrow>
             (let c2 = (if \<not> lock_ok e k
                        then warn (CHR 0x09 # ''gmic-qt: Could not lock memory segment'') c1 else c1)
              in case at (sizes c2) i of
                   Inl err \<Rightarrow> (Some err, c2)
                 | Inr (width, height) \<Rightarrow>
                     (case copyFromSegment width height seg of
                        Inl err \<Rightarrow> (Some err, c2)
                      | Inr gimg \<Rightarrow>
                          if \<not> i < length (images c2) then (Some IndexOutOfRange, c2)
                          else (let c3 = c2\<lparr>images := (images c2)[i := gimg]\<rparr>;
                                    c4 = (if \<not> unlock_ok e k
                                          then warn (CHR 0x09 # ''gmic-qt: Could not unlock memory segment'') c3
                                          else c3);
                                    c5 = (if \<not> detach_ok e k
                                          then warn (CHR 0x09 # ''gmic-qt: Could not detach from memory segment'') c4
                                          else c4)
                                in (None, c5)))))"

fun fillImages :: "('a, 'd) env \<Rightarrow> nat \<Rightarrow> string list \<Rightarrow> 'a crop \<Rightarrow> error option \<times> 'a crop" where
  "fillImages e i [] c = (None, c)"
| "fillImages e i (k # rest) c =
     (case fillImage e i k c of
        (Some err, c') \<Rightarrow> (Some err, c')
      | (None, c') \<Rightarrow> fillImages e (Suc i) rest c')"

text \<open>
  The function. \<open>images0\<close> and \<open>imageNames0\<close> are the caller's two lists as they are at
  the call; the result is an error or nothing, the two lists and the state.
  \<^verbatim>\<open>images.assign(n)\<close> makes a list of \<open>n\<close> entries, and so for the names.
\<close>

definition getCroppedImages ::
  "('a, 'd::{zero,one,ord}) env \<Rightarrow> 'a gmic_image list \<Rightarrow> string list \<Rightarrow> 'd \<Rightarrow> 'd \<Rightarrow> 'd \<Rightarrow> 'd \<Rightarrow> int
     \<Rightarrow> 'a world \<Rightarrow> error option \<times> 'a gmic_image list \<times> string list \<times> 'a world" where
  "getCroppedImages e images0 imageNames0 x y width height mode w =
     (let message = cropMessage e (cropRect x y width height) mode;
          (answer, w1) = request e message w
      in if answer = [] then (None, images0, imageNames0, qWarning (CHR 0x09 # ''gmic-qt: empty answer!'') w1)
         else (let imagesList = splitSkipEmpty answer (CHR 0x0A);
                   c0 = \<lparr>memoryKeys = [], sizes = [],
                         images = map (imageSlot e) [0 ..< length imagesList],
                         imageNames = map (nameSlot e) [0 ..< length imagesList],
                         cropWarnings = warnings w1\<rparr>
               in case parseLayers 0 imagesList c0 of
                    (Some err, c1) \<Rightarrow>
                      (Some err, images c1, imageNames c1, w1\<lparr>warnings := cropWarnings c1\<rparr>)
                  | (None, c1) \<Rightarrow>
                      (case fillImages e 0 (memoryKeys c1) c1 of
                         (Some err, c2) \<Rightarrow>
                           (Some err, images c2, imageNames c2, w1\<lparr>warnings := cropWarnings c2\<rparr>)
                       | (None, c2) \<Rightarrow>
                           (let (ignored, w2) =
                                  request e ''command=gmic_qt_detach'' (w1\<lparr>warnings := cropWarnings c2\<rparr>)
                            in (None, images c2, imageNames c2, w2)))))"

subsection \<open>outputImages\<close>

text \<open>
  Lines 240 to 246 (and 374 to 381 of \<^verbatim>\<open>main\<close>): every object of the vector is detached
  if it is attached, then deleted, and the vector is cleared. The vector only ever holds
  pointers that \<open>outputLoop\<close> stored, which are indices of the heap.
\<close>

definition detachSegment :: "nat \<Rightarrow> 'a QSharedMemory list \<Rightarrow> 'a QSharedMemory list" where
  "detachSegment p h =
     (if p < length h \<and> shm_attached (h ! p) then h[p := (h ! p)\<lparr>shm_attached := False\<rparr>] else h)"

definition deleteSegment :: "nat \<Rightarrow> 'a QSharedMemory list \<Rightarrow> 'a QSharedMemory list" where
  "deleteSegment p h =
     (if p < length h then h[p := (h ! p)\<lparr>shm_attached := False, shm_deleted := True\<rparr>] else h)"

definition releaseSegments :: "'a world \<Rightarrow> 'a world" where
  "releaseSegments w =
     (let h1 = fold detachSegment (sharedMemorySegments w) (heap w);
          h2 = fold deleteSegment (sharedMemorySegments w) h1
      in w\<lparr>heap := h2, sharedMemorySegments := []\<rparr>)"

text \<open>
  Line 263: the size in bytes of the segment. The three dimensions are
  \<^verbatim>\<open>unsigned int\<close>s, whose product wraps at \<open>2 ^ 32\<close>; \<^verbatim>\<open>sizeof(float)\<close> is 4.
\<close>

definition segmentSamples :: "'a gmic_image \<Rightarrow> nat" where
  "segmentSamples gimg = (img_width gimg * img_height gimg * img_spectrum gimg) mod 2 ^ 32"

definition segmentKey :: "('a, 'd) env \<Rightarrow> nat \<Rightarrow> string" where
  "segmentKey e n = ''key_'' @ createUuid e n"

text \<open>Line 274: the line of the message for one image.\<close>

definition layerLine :: "string \<Rightarrow> string \<Rightarrow> 'a gmic_image \<Rightarrow> string" where
  "layerLine k name gimg =
     ''layer='' @ k @ '','' @ toHex (cstring name) @ '','' @ natToString (img_spectrum gimg)
     @ '','' @ natToString (img_width gimg) @ '','' @ natToString (img_height gimg) @ [CHR 0x0A]"

text \<open>
  Lines 254 to 275, the loop over the images, from the image of index \<open>i\<close> on. It ends
  in one of three ways: all images are done, \<^verbatim>\<open>create\<close> fails (the \<^verbatim>\<open>return\<close> of
  line 265), or \<open>imageNames\<close> has no entry of index \<open>i\<close>.
\<close>

datatype stop = CreateFailed | Crashed error

fun outputLoop ::
  "('a, 'd) env \<Rightarrow> nat \<Rightarrow> 'a gmic_image list \<Rightarrow> string list \<Rightarrow> string \<Rightarrow> 'a world
     \<Rightarrow> stop option \<times> string \<times> 'a world" where
  "outputLoop e i [] names message w = (None, message, w)"
| "outputLoop e i (gimg # rest) names message w =
     (let k = segmentKey e (uuids w);
          m = length (heap w);
          w1 = w\<lparr>uuids := Suc (uuids w),
                 heap := heap w @ [\<lparr>shm_key = k, shm_attached = False, shm_deleted = False,
                                    shm_data = []\<rparr>],
                 sharedMemorySegments := sharedMemorySegments w @ [m]\<rparr>
      in if \<not> create_ok e k (segmentSamples gimg * 4)
         then (Some CreateFailed, message, qWarning ''Could not create shared memory'' w1)
         else (let w2 = w1\<lparr>heap := (heap w1)[m := \<lparr>shm_key = k, shm_attached = True,
                                shm_deleted = False,
                                shm_data = take (segmentSamples gimg) (img_data gimg)\<rparr>]\<rparr>
               in case at names i of
                    Inl err \<Rightarrow> (Some (Crashed err), message, w2)
                  | Inr name \<Rightarrow>
                      outputLoop e (Suc i) rest names (message @ layerLine k name gimg) w2))"

definition outputImages ::
  "('a, 'd) env \<Rightarrow> 'a gmic_image list \<Rightarrow> string list \<Rightarrow> int \<Rightarrow> 'a world \<Rightarrow> error option \<times> 'a world" where
  "outputImages e imgs names mode w =
     (let w0 = releaseSegments w;
          message = ''command=gmic_qt_output_images'' @ [CHR 0x0A] @ ''mode='' @ intToString mode
                    @ [CHR 0x0A]
      in case outputLoop e 0 imgs names message w0 of
           (Some CreateFailed, message', w1) \<Rightarrow> (None, w1)
         | (Some (Crashed err), message', w1) \<Rightarrow> (Some err, w1)
         | (None, message', w1) \<Rightarrow> (None, snd (request e message' w1)))"

subsection \<open>sendMessageSynchronously\<close>

text \<open>
  The socket as the function sees it: the bytes received and not yet read, whether the
  socket is valid, the number of blocking waits made so far, the bytes written and the
  warnings. What the other side does is a script: the event that happens during the
  \<open>n\<close>-th blocking wait (\<^verbatim>\<open>waitForBytesWritten\<close>, \<^verbatim>\<open>waitForReadyRead\<close>), which is
  that the wait times out, that bytes arrive, or that the connection goes away.
\<close>

datatype event = Timeout | Data string | Closed

record socket =
  available :: string
  valid :: bool
  waits :: nat
  written :: string
  logged :: "string list"

record network =
  connects :: bool
  events :: "nat \<Rightarrow> event"
  uninitialised :: "nat \<Rightarrow> char"

text \<open>One blocking wait; the result is that of \<^verbatim>\<open>waitForReadyRead\<close>: new bytes are there.\<close>

definition wait :: "network \<Rightarrow> socket \<Rightarrow> bool \<times> socket" where
  "wait net s =
     (case events net (waits s) of
        Timeout \<Rightarrow> (False, s\<lparr>waits := Suc (waits s)\<rparr>)
      | Data bs \<Rightarrow> (bs \<noteq> [], s\<lparr>available := available s @ bs, waits := Suc (waits s)\<rparr>)
      | Closed \<Rightarrow> (False, s\<lparr>valid := False, waits := Suc (waits s)\<rparr>))"

text \<open>
  Lines 94 to 100: the loop that waits for the four bytes of the length. It ends with
  \<open>True\<close> when they are there and with \<open>False\<close> at the \<^verbatim>\<open>return\<close> of line 97. The
  result of \<^verbatim>\<open>waitForReadyRead(1000)\<close> is not looked at. \<open>None\<close> is a loop that never
  ends.
\<close>

partial_function (option) waitForHeader :: "network \<Rightarrow> socket \<Rightarrow> (bool \<times> socket) option" where
  "waitForHeader net s =
     (if length (available s) < 4
      then (if \<not> valid s then Some (False, s\<lparr>logged := logged s @ [''Stale request'']\<rparr>)
            else waitForHeader net (snd (wait net s)))
      else Some (True, s))"

text \<open>
  \<^verbatim>\<open>QDataStream::readRawData(buf, len)\<close>: the number of bytes read and the bytes, or -1
  when the socket cannot be read or \<open>len\<close>, a \<^verbatim>\<open>quint32\<close> passed as an \<^verbatim>\<open>int\<close>, is
  negative there.
\<close>

definition readRawData :: "socket \<Rightarrow> nat \<Rightarrow> int \<times> string \<times> socket" where
  "readRawData s len =
     (if \<not> valid s \<or> len \<ge> 2 ^ 31 then (- 1, [], s)
      else (int (length (take len (available s))), take len (available s),
            s\<lparr>available := drop len (available s)\<rparr>))"

text \<open>Lines 108 to 112: \<open>remaining\<close> is a \<^verbatim>\<open>quint32\<close>, so the subtraction wraps.\<close>

partial_function (option) readAnswer ::
  "network \<Rightarrow> socket \<Rightarrow> nat \<Rightarrow> string \<Rightarrow> (int \<times> string \<times> socket) option" where
  "readAnswer net s remaining buf =
     (let r = readRawData s remaining;
          got = fst r;
          buf' = buf @ fst (snd r);
          s1 = snd (snd r);
          remaining' = nat ((int remaining - got) mod 2 ^ 32)
      in if remaining' \<noteq> 0 \<and> got \<ge> 0
         then (if fst (wait net s1) then readAnswer net (snd (wait net s1)) remaining' buf'
               else Some (got, buf', snd (wait net s1)))
         else Some (got, buf', s1))"

text \<open>The length prefix of \<^verbatim>\<open>QDataStream\<close>: four bytes, the most significant first.\<close>

definition writeUInt32 :: "nat \<Rightarrow> string" where
  "writeUInt32 n = [char_of (n div 2 ^ 24), char_of (n div 2 ^ 16), char_of (n div 2 ^ 8), char_of n]"

definition readUInt32 :: "string \<Rightarrow> nat" where
  "readUInt32 bs = foldl (\<lambda>n c. n * 256 + of_char c) 0 (take 4 bs)"

text \<open>
  The function: the answer and the socket at the end, or \<open>None\<close> when it never returns.
  \<^verbatim>\<open>answer.resize(remaining)\<close> leaves the new bytes uninitialised; what they hold is a
  parameter.
\<close>

definition sendMessageSynchronously :: "network \<Rightarrow> string \<Rightarrow> (string \<times> socket) option" where
  "sendMessageSynchronously net ba =
     (if \<not> connects net
      then Some ([], \<lparr>available = [], valid = False, waits = 0, written = [],
                      logged = [''Could not connect to the Krita instance.'']\<rparr>)
      else (let s0 = \<lparr>available = [], valid = True, waits = 0,
                       written = writeUInt32 (length ba) @ ba, logged = []\<rparr>;
                s1 = snd (wait net s0)
            in case waitForHeader net s1 of
                 None \<Rightarrow> None
               | Some (False, s2) \<Rightarrow> Some ([], s2)
               | Some (True, s2) \<Rightarrow>
                   (let remaining = readUInt32 (available s2);
                        s3 = s2\<lparr>available := drop 4 (available s2)\<rparr>;
                        size = (if remaining < 2 ^ 31 then remaining else 0)
                    in case readAnswer net s3 remaining [] of
                         None \<Rightarrow> None
                       | Some (got, buf, s4) \<Rightarrow>
                           (let answer = buf @ map (uninitialised net) [length buf ..< size]
                            in if got < 0
                               then Some (answer, s4\<lparr>logged := logged s4 @ [''Could not receive the answer.'']\<rparr>)
                               else (let s5 = s4\<lparr>written := written s4 @ ''ack''\<rparr>;
                                         s6 = snd (wait net s5)
                                     in Some (answer, s6\<lparr>valid := False\<rparr>))))))"

subsection \<open>Auxiliary definitions\<close>

text \<open>
  Names for the states inside the loop of \<open>outputImages\<close>: after lines 260 and 261 (the
  object is made and stored in the vector) and after \<^verbatim>\<open>create\<close> and the copy of lines
  263 to 270 have succeeded. \<open>grown w w' n\<close> says that \<open>w'\<close> is \<open>w\<close> with \<open>n\<close> more objects,
  all stored in the vector, none deleted, and nothing sent.
\<close>

definition newSegment :: "('a, 'd) env \<Rightarrow> 'a world \<Rightarrow> 'a world" where
  "newSegment e w =
     w\<lparr>uuids := Suc (uuids w),
       heap := heap w @ [\<lparr>shm_key = segmentKey e (uuids w), shm_attached = False,
                          shm_deleted = False, shm_data = []\<rparr>],
       sharedMemorySegments := sharedMemorySegments w @ [length (heap w)]\<rparr>"

definition createdSegment :: "('a, 'd) env \<Rightarrow> 'a gmic_image \<Rightarrow> 'a world \<Rightarrow> 'a world" where
  "createdSegment e gimg w =
     (newSegment e w)\<lparr>heap := (heap (newSegment e w))[length (heap w) :=
        \<lparr>shm_key = segmentKey e (uuids w), shm_attached = True, shm_deleted = False,
         shm_data = take (segmentSamples gimg) (img_data gimg)\<rparr>]\<rparr>"

definition grown :: "'a world \<Rightarrow> 'a world \<Rightarrow> nat \<Rightarrow> bool" where
  "grown w w' n \<longleftrightarrow>
     length (heap w') = length (heap w) + n \<and> uuids w' = uuids w + n
     \<and> sharedMemorySegments w' = sharedMemorySegments w @ [length (heap w) ..< length (heap w) + n]
     \<and> sent w' = sent w \<and> take (length (heap w)) (heap w') = heap w
     \<and> (\<forall>p. length (heap w) \<le> p \<and> p < length (heap w') \<longrightarrow> \<not> shm_deleted (heap w' ! p))"

subsection \<open>Concrete states and environments\<close>

text \<open>The state at the start of the process, and environments for the examples: samples
  are natural numbers, doubles are integers, printed in decimal. In \<open>strict\<close>,
  \<^verbatim>\<open>create\<close> refuses a segment of size 0, as Qt does.\<close>

definition initialWorld :: "nat world" where
  "initialWorld = \<lparr>heap = [], sharedMemorySegments = [], uuids = 0, sent = [], warnings = []\<rparr>"

definition answering :: "string \<Rightarrow> (nat, int) env" where
  "answering answer =
     \<lparr>host = (\<lambda>n command. answer), segments = Map.empty, lock_ok = (\<lambda>k. True),
      unlock_ok = (\<lambda>k. True), detach_ok = (\<lambda>k. True), createUuid = natToString,
      create_ok = (\<lambda>k n. True), formatDouble = intToString,
      imageSlot = (\<lambda>i. emptyImage), nameSlot = (\<lambda>i. [])\<rparr>"

definition strict :: "(nat, int) env" where
  "strict = (answering [])\<lparr>create_ok := (\<lambda>k n. 0 < n)\<rparr>"

definition pixel :: "nat gmic_image" where
  "pixel = \<lparr>img_width = 1, img_height = 1, img_depth = 1, img_spectrum = 1, img_data = [7]\<rparr>"

text \<open>Answers to the crop query with the segments they name: the single line of the spec
  with a segment of \<open>n\<close> samples, and two lines of four fields.\<close>

definition layer01 :: "nat \<Rightarrow> (nat, int) env" where
  "layer01 n = (answering ''key1,6c617965723031,4,2,2'')\<lparr>segments := [''key1'' \<mapsto> replicate n 0]\<rparr>"


text \<open>Two scripts for the socket: nothing ever happens; nothing happens until the
  connection goes away during the wait of index \<open>k\<close>.\<close>

definition silent :: network where
  "silent = \<lparr>connects = True, events = (\<lambda>t. Timeout), uninitialised = (\<lambda>n. CHR 0x00)\<rparr>"

definition silentUntil :: "nat \<Rightarrow> network" where
  "silentUntil k = \<lparr>connects = True, events = (\<lambda>t. if t = k then Closed else Timeout),
      uninitialised = (\<lambda>n. CHR 0x00)\<rparr>"

section \<open>Properties\<close>

subsection \<open>Facts about the string functions\<close>

lemma splitKeep_nonempty: "splitKeep sep s \<noteq> []"
  by (induction s) (auto split: list.splits)

lemma splitKeep_chars: "p \<in> set (splitKeep sep s) \<Longrightarrow> set p \<subseteq> set s"
proof (induction s arbitrary: p)
  case Nil
  then show ?case by simp
next
  case (Cons c cs)
  show ?case
  proof (cases "c = sep")
    case True
    with Cons show ?thesis by auto
  next
    case False
    obtain q qs where q: "splitKeep sep cs = q # qs"
      using splitKeep_nonempty [of sep cs] by (cases "splitKeep sep cs") auto
    with False Cons.prems have "p = c # q \<or> p \<in> set qs" by auto
    then show ?thesis
    proof
      assume "p = c # q"
      moreover have "set q \<subseteq> set cs" using Cons.IH [of q] q by simp
      ultimately show ?thesis by auto
    next
      assume "p \<in> set qs"
      then have "set p \<subseteq> set cs" using Cons.IH [of p] q by simp
      then show ?thesis by auto
    qed
  qed
qed

lemma splitSkipEmpty_chars: "p \<in> set (splitSkipEmpty s sep) \<Longrightarrow> set p \<subseteq> set s"
  by (auto simp: splitSkipEmpty_def dest: splitKeep_chars)

lemma digitsValue_nonneg: "0 \<le> acc \<Longrightarrow> digitsValue ds acc = Some n \<Longrightarrow> 0 \<le> n"
proof (induction ds arbitrary: acc)
  case Nil
  then show ?case by simp
next
  case (Cons c cs)
  from Cons.prems have d: "isDigit c" and r: "digitsValue cs (acc * 10 + (of_char c - 48)) = Some n"
    by (auto split: if_splits)
  from d have "(48::int) \<le> of_char c" unfolding isDigit_def
    by (metis of_nat_le_iff of_nat_numeral of_nat_of_char)
  with Cons.prems(1) have "0 \<le> acc * 10 + (of_char c - 48)" by simp
  then show ?case using Cons.IH r by blast
qed

lemma trimmed_chars: "set (trimmed s) \<subseteq> set s"
proof -
  have "set (trimmed s) \<subseteq> set (rev (dropWhile isSpace s))"
    unfolding trimmed_def using set_dropWhileD by fastforce
  also have "\<dots> \<subseteq> set s" using set_dropWhileD by fastforce
  finally show ?thesis .
qed

lemma toInt_range: "INT_MIN \<le> toInt s \<and> toInt s \<le> INT_MAX"
  by (auto simp: toInt_def Let_def INT_MIN_def INT_MAX_def split: list.splits option.splits)

lemma toInt_nonneg: "CHR ''-'' \<notin> set s \<Longrightarrow> 0 \<le> toInt s"
proof -
  assume a: "CHR ''-'' \<notin> set s"
  show ?thesis
  proof (cases "trimmed s")
    case Nil
    then show ?thesis by (simp add: toInt_def)
  next
    case (Cons c cs)
    with a trimmed_chars [of s] have "c \<noteq> CHR ''-''" by auto
    with Cons have "toInt s = 0 \<or> (\<exists>ds n. digitsValue ds 0 = Some n \<and> toInt s = n)"
      by (auto simp: toInt_def Let_def simp del: digitsValue.simps split: option.splits)
    then show ?thesis using digitsValue_nonneg [of 0] by auto
  qed
qed

subsection \<open>getLayersExtent\<close>

lemma getLayersExtent_unfold:
  "fst (getLayersExtent e mode w) =
     (let answer = host e (length (sent w))
            (''command=gmic_qt_get_image_size'' @ [CHR 0x0A] @ ''mode='' @ intToString mode);
          wh = splitSkipEmpty answer (CHR '','')
      in if answer \<noteq> [] \<and> length wh = 2 then (toInt (wh ! 0), toInt (wh ! 1)) else (0, 0))"
  by (simp add: getLayersExtent_def request_def Let_def)



text \<open>
  C6, as the code has it. The two numbers are what \<^verbatim>\<open>toInt\<close> gives for the two fields:
  they lie in the range of a 32-bit \<^verbatim>\<open>int\<close>, and they are not negative when the answer
  has no minus sign. A field such as \<open>-5\<close> is read as the negative number it writes:
  nothing in the function rejects or clamps it.
\<close>

theorem getLayersExtent_range:
  assumes "host e (length (sent w))
      (''command=gmic_qt_get_image_size'' @ [CHR 0x0A] @ ''mode='' @ intToString mode) = answer"
    and "fst (getLayersExtent e mode w) = (width, height)"
  shows "INT_MIN \<le> width \<and> width \<le> INT_MAX \<and> INT_MIN \<le> height \<and> height \<le> INT_MAX
         \<and> (CHR ''-'' \<notin> set answer \<longrightarrow> 0 \<le> width \<and> 0 \<le> height)"
proof -
  let ?wh = "splitSkipEmpty answer (CHR '','')"
  show ?thesis
  proof (cases "answer \<noteq> [] \<and> length ?wh = 2")
    case False
    with assms have "width = 0 \<and> height = 0" by (auto simp: getLayersExtent_unfold Let_def)
    then show ?thesis by (simp add: INT_MIN_def INT_MAX_def)
  next
    case True
    with assms have wh: "width = toInt (?wh ! 0)" "height = toInt (?wh ! 1)"
      by (auto simp: getLayersExtent_unfold Let_def)
    from True have "?wh ! 0 \<in> set ?wh" "?wh ! 1 \<in> set ?wh" by auto
    then have "set (?wh ! 0) \<subseteq> set answer" "set (?wh ! 1) \<subseteq> set answer"
      by (auto dest: splitSkipEmpty_chars)
    then have "CHR ''-'' \<notin> set answer \<longrightarrow> 0 \<le> width \<and> 0 \<le> height"
      using wh toInt_nonneg by blast
    then show ?thesis using wh toInt_range by blast
  qed
qed

theorem getLayersExtent_range_witness:
  "INT_MIN \<le> 640 \<and> 640 \<le> INT_MAX \<and> INT_MIN \<le> 480 \<and> 480 \<le> INT_MAX
   \<and> CHR ''-'' \<notin> set ''640,480'' \<and> (0::int) \<le> 640 \<and> (0::int) \<le> 480
   \<and> fst (getLayersExtent (answering ''640,480'') 0 initialWorld) = (640, 480)"
proof -
  have a: "host (answering ''640,480'') (length (sent initialWorld))
      (''command=gmic_qt_get_image_size'' @ [CHR 0x0A] @ ''mode='' @ intToString 0) = ''640,480''"
    by (simp add: answering_def)
  have b: "fst (getLayersExtent (answering ''640,480'') 0 initialWorld) = (640, 480)"
    by (simp add: getLayersExtent_unfold answering_def splitSkipEmpty_def toInt_def trimmed_def
        isSpace_def isDigit_def INT_MIN_def INT_MAX_def)
  show ?thesis using getLayersExtent_range [OF a b] b by simp
qed

text \<open>The answer \<open>-5,3\<close> gives the width -5: the claim C6 as it is written fails there.\<close>

theorem getLayersExtent_negative:
  "fst (getLayersExtent (answering ''-5,3'') 0 initialWorld) = (- 5, 3)
   \<and> \<not> 0 \<le> fst (fst (getLayersExtent (answering ''-5,3'') 0 initialWorld))"
  by (simp add: getLayersExtent_unfold answering_def splitSkipEmpty_def toInt_def trimmed_def
      isSpace_def isDigit_def INT_MIN_def INT_MAX_def)

subsection \<open>getCroppedImages: the command\<close>

lemma getCroppedImages_sent:
  "\<exists>rest. sent (snd (snd (snd (getCroppedImages e images0 names0 x y width height mode w))))
     = sent w @ cropMessage e (cropRect x y width height) mode # rest"
  by (auto simp: getCroppedImages_def request_def qWarning_def Let_def
           split: prod.splits option.splits)

text \<open>
  C4. The command that \<open>getCroppedImages\<close> sends first carries the rectangle
  \<open>(0, 0, 1, 1)\<close> when the four values are all negative, whatever they are, and the four
  values unchanged otherwise. (What is sent is the text \<^verbatim>\<open>QString::arg\<close> prints for each
  value.)
\<close>

theorem getCroppedImages_croprect:
  "sent (snd (snd (snd (getCroppedImages e images0 names0 x y width height mode w)))) ! length (sent w) =
     ''command=gmic_qt_get_cropped_images'' @ [CHR 0x0A] @ ''mode='' @ intToString mode
     @ [CHR 0x0A] @ ''croprect=''
     @ (if x < 0 \<and> y < 0 \<and> width < 0 \<and> height < 0
        then formatDouble e 0 @ '','' @ formatDouble e 0 @ '','' @ formatDouble e 1 @ '',''
             @ formatDouble e 1
        else formatDouble e x @ '','' @ formatDouble e y @ '','' @ formatDouble e width @ '',''
             @ formatDouble e height)"
proof -
  obtain rest where
    "sent (snd (snd (snd (getCroppedImages e images0 names0 x y width height mode w))))
       = sent w @ cropMessage e (cropRect x y width height) mode # rest"
    using getCroppedImages_sent by blast
  then have "sent (snd (snd (snd (getCroppedImages e images0 names0 x y width height mode w))))
       ! length (sent w) = cropMessage e (cropRect x y width height) mode"
    by simp
  then show ?thesis by (simp add: cropMessage_def cropRect_def)
qed

theorem getCroppedImages_croprect_witness:
  "sent (snd (snd (snd (getCroppedImages (answering []) [] [] (- 3) (- 1) (- 7) (- 2) 1
      initialWorld)))) ! 0 =
     ''command=gmic_qt_get_cropped_images'' @ [CHR 0x0A] @ ''mode=1'' @ [CHR 0x0A] @ ''croprect=0,0,1,1''"
  using getCroppedImages_croprect [of "answering []" "[]" "[]" "- 3" "- 1" "- 7" "- 2" 1 initialWorld]
  by (simp add: answering_def initialWorld_def intToString_def natToString.simps)

text \<open>
  X2. On an empty answer (which is also what a failed exchange gives) \<open>getCroppedImages\<close>
  returns at line 168: the caller's two lists are as they were, a warning is written, and
  the command \<open>gmic_qt_detach\<close> is not sent.
\<close>

theorem getCroppedImages_empty_answer:
  fixes e :: "('a, 'd::{zero,one,ord}) env"
  assumes "host e (length (sent w)) (cropMessage e (cropRect x y width height) mode) = []"
  shows "getCroppedImages e images0 names0 x y width height mode w =
     (None, images0, names0,
      w\<lparr>sent := sent w @ [cropMessage e (cropRect x y width height) mode],
        warnings := warnings w @ [CHR 0x09 # ''gmic-qt: empty answer!'']\<rparr>)"
  using assms by (simp add: getCroppedImages_def request_def qWarning_def)

theorem getCroppedImages_empty_answer_witness:
  "getCroppedImages (answering []) [pixel] [''old''] 0 0 1 1 0 initialWorld =
     (None, [pixel], [''old''],
      initialWorld\<lparr>sent := [cropMessage (answering []) (0, 0, 1, 1) 0],
        warnings := [CHR 0x09 # ''gmic-qt: empty answer!'']\<rparr>)"
proof -
  have a: "host (answering []) (length (sent initialWorld))
      (cropMessage (answering []) (cropRect 0 0 1 1) 0) = []"
    by (simp add: answering_def)
  show ?thesis using getCroppedImages_empty_answer [OF a, of "[pixel]" "[''old'']"]
    by (simp add: initialWorld_def cropRect_def)
qed

subsection \<open>getCroppedImages: the two loops\<close>

text \<open>The first loop on lines of at least four fields, and on a line of fewer.\<close>

lemma parseLayer_fields:
  assumes "4 \<le> length (splitSkipEmpty layer (CHR '',''))" and "i < length (imageNames c)"
  shows "parseLayer i layer c =
     (None, c\<lparr>memoryKeys := memoryKeys c @ [splitSkipEmpty layer (CHR '','') ! 0],
              imageNames := (imageNames c)[i := cstring (fromHex (splitSkipEmpty layer (CHR '','') ! 1))],
              sizes := sizes c @ [(toInt (splitSkipEmpty layer (CHR '','') ! 2),
                                   toInt (splitSkipEmpty layer (CHR '','') ! 3))],
              cropWarnings := (if length (splitSkipEmpty layer (CHR '','')) \<noteq> 4
                               then cropWarnings c @ [CHR 0x09 # ''gmic-qt: Got the wrong answer!'']
                               else cropWarnings c)\<rparr>)"
  using assms by (auto simp: parseLayer_def Let_def at_def warn_def)


lemma parseLayers_fields:
  assumes "\<forall>l \<in> set ls. 4 \<le> length (splitSkipEmpty l (CHR '',''))"
    and "i + length ls \<le> length (imageNames c)"
  shows "\<exists>c'. parseLayers i ls c = (None, c')
     \<and> memoryKeys c' = memoryKeys c @ map (\<lambda>l. splitSkipEmpty l (CHR '','') ! 0) ls
     \<and> sizes c' = sizes c @ map (\<lambda>l. (toInt (splitSkipEmpty l (CHR '','') ! 2),
                                         toInt (splitSkipEmpty l (CHR '','') ! 3))) ls
     \<and> images c' = images c
     \<and> length (imageNames c') = length (imageNames c)
     \<and> (\<forall>j<length ls. imageNames c' ! (i + j) = cstring (fromHex (splitSkipEmpty (ls ! j) (CHR '','') ! 1)))
     \<and> (\<forall>j<i. imageNames c' ! j = imageNames c ! j)"
  using assms
proof (induction ls arbitrary: i c)
  case Nil
  then show ?case by simp
next
  case (Cons l ls)
  let ?c1 = "snd (parseLayer i l c)"
  from Cons.prems have f: "4 \<le> length (splitSkipEmpty l (CHR '',''))" and i: "i < length (imageNames c)"
    by simp_all
  note step = parseLayer_fields [OF f i]
  have c1: "memoryKeys ?c1 = memoryKeys c @ [splitSkipEmpty l (CHR '','') ! 0]"
    "sizes ?c1 = sizes c @ [(toInt (splitSkipEmpty l (CHR '','') ! 2), toInt (splitSkipEmpty l (CHR '','') ! 3))]"
    "images ?c1 = images c"
    "imageNames ?c1 = (imageNames c)[i := cstring (fromHex (splitSkipEmpty l (CHR '','') ! 1))]"
    by (simp_all add: step)
  have a: "\<forall>l \<in> set ls. 4 \<le> length (splitSkipEmpty l (CHR '',''))" using Cons.prems by simp
  have b: "Suc i + length ls \<le> length (imageNames ?c1)" using Cons.prems c1 by simp
  from Cons.IH [OF a b] obtain c' where
    r: "parseLayers (Suc i) ls ?c1 = (None, c')"
    and k: "memoryKeys c' = memoryKeys ?c1 @ map (\<lambda>l. splitSkipEmpty l (CHR '','') ! 0) ls"
    and s: "sizes c' = sizes ?c1 @ map (\<lambda>l. (toInt (splitSkipEmpty l (CHR '','') ! 2),
                                         toInt (splitSkipEmpty l (CHR '','') ! 3))) ls"
    and im: "images c' = images ?c1"
    and len: "length (imageNames c') = length (imageNames ?c1)"
    and n: "\<forall>j<length ls. imageNames c' ! (Suc i + j) = cstring (fromHex (splitSkipEmpty (ls ! j) (CHR '','') ! 1))"
    and o: "\<forall>j<Suc i. imageNames c' ! j = imageNames ?c1 ! j"
    by blast
  have run: "parseLayers i (l # ls) c = (None, c')" using r by (simp add: step)
  have names: "\<forall>j<length (l # ls). imageNames c' ! (i + j)
      = cstring (fromHex (splitSkipEmpty ((l # ls) ! j) (CHR '','') ! 1))"
  proof (intro allI impI)
    fix j assume j: "j < length (l # ls)"
    show "imageNames c' ! (i + j) = cstring (fromHex (splitSkipEmpty ((l # ls) ! j) (CHR '','') ! 1))"
    proof (cases j)
      case 0
      with o c1 i show ?thesis by simp
    next
      case (Suc j')
      with j n show ?thesis by simp
    qed
  qed
  have old: "\<forall>j<i. imageNames c' ! j = imageNames c ! j" using o c1 by simp
  from run k s im len names old c1 show ?case by simp
qed


text \<open>The second loop: one step, what the loop leaves alone, what it has filled when it
  ends without error, and that it does so when every copy is defined.\<close>

lemma copyFromSegment_error: "copyFromSegment width height seg \<noteq> Inl IndexOutOfRange"
  by (simp add: copyFromSegment_def Let_def)

lemma fillImage_cases:
  assumes "i < length (sizes c)" and "i < length (images c)"
  obtains (absent) ws where "segments e k = None"
      "fillImage e i k c = (None, c\<lparr>cropWarnings := ws\<rparr>)"
  | (copied) seg g ws where "segments e k = Some seg"
      "copyFromSegment (fst (sizes c ! i)) (snd (sizes c ! i)) seg = Inr g"
      "fillImage e i k c = (None, c\<lparr>images := (images c)[i := g], cropWarnings := ws\<rparr>)"
  | (failed) seg err ws where "segments e k = Some seg"
      "copyFromSegment (fst (sizes c ! i)) (snd (sizes c ! i)) seg = Inl err"
      "fillImage e i k c = (Some err, c\<lparr>cropWarnings := ws\<rparr>)"
proof (cases "segments e k")
  case None
  then have "fillImage e i k c = (None, c\<lparr>cropWarnings := cropWarnings c
      @ [CHR 0x09 # ''gmic-qt: Could not attach to shared memory area.'',
         ''gmic-qt: Could not attach to shared memory area.'']\<rparr>)"
    by (simp add: fillImage_def warn_def)
  with None show ?thesis by (rule absent)
next
  case (Some seg)
  obtain wd ht where sz: "sizes c ! i = (wd, ht)" by (cases "sizes c ! i") auto
  show ?thesis
  proof (cases "copyFromSegment wd ht seg")
    case (Inl err)
    with Some assms sz have "fillImage e i k c
        = (Some err, c\<lparr>cropWarnings := cropWarnings (snd (fillImage e i k c))\<rparr>)"
      by (simp add: fillImage_def Let_def at_def warn_def)
    then obtain ws where "fillImage e i k c = (Some err, c\<lparr>cropWarnings := ws\<rparr>)" by blast
    moreover from Inl sz have "copyFromSegment (fst (sizes c ! i)) (snd (sizes c ! i)) seg = Inl err"
      by simp
    ultimately show ?thesis using Some by (intro failed)
  next
    case (Inr g)
    with Some assms sz have "fillImage e i k c
        = (None, c\<lparr>images := (images c)[i := g],
                   cropWarnings := cropWarnings (snd (fillImage e i k c))\<rparr>)"
      by (simp add: fillImage_def Let_def at_def warn_def)
    then obtain ws where "fillImage e i k c
        = (None, c\<lparr>images := (images c)[i := g], cropWarnings := ws\<rparr>)" by blast
    moreover from Inr sz have "copyFromSegment (fst (sizes c ! i)) (snd (sizes c ! i)) seg = Inr g"
      by simp
    ultimately show ?thesis using Some by (intro copied)
  qed
qed

lemma fillImages_frame:
  assumes "i + length ks \<le> length (sizes c)" and "i + length ks \<le> length (images c)"
    and "fillImages e i ks c = (err, c')"
  shows "err \<noteq> Some IndexOutOfRange \<and> sizes c' = sizes c \<and> imageNames c' = imageNames c
     \<and> length (images c') = length (images c) \<and> (\<forall>j<i. images c' ! j = images c ! j)"
  using assms
proof (induction ks arbitrary: i c)
  case Nil
  then show ?case by simp
next
  case (Cons k ks)
  from Cons.prems have i: "i < length (sizes c)" "i < length (images c)" by simp_all
  from i show ?case
  proof (cases rule: fillImage_cases [where e = e and k = k])
    case (absent ws)
    let ?c1 = "c\<lparr>cropWarnings := ws\<rparr>"
    from absent Cons.prems(3) have r: "fillImages e (Suc i) ks ?c1 = (err, c')" by simp
    have "Suc i + length ks \<le> length (sizes ?c1)" "Suc i + length ks \<le> length (images ?c1)"
      using Cons.prems by simp_all
    from Cons.IH [OF this r] show ?thesis by simp
  next
    case (copied seg g ws)
    let ?c1 = "c\<lparr>images := (images c)[i := g], cropWarnings := ws\<rparr>"
    from copied Cons.prems(3) have r: "fillImages e (Suc i) ks ?c1 = (err, c')" by simp
    have "Suc i + length ks \<le> length (sizes ?c1)" "Suc i + length ks \<le> length (images ?c1)"
      using Cons.prems by simp_all
    from Cons.IH [OF this r] show ?thesis by simp
  next
    case (failed seg err' ws)
    with Cons.prems(3) have "err = Some err'" "c' = c\<lparr>cropWarnings := ws\<rparr>" by simp_all
    with failed(2) copyFromSegment_error show ?thesis by auto
  qed
qed

lemma fillImages_filled:
  assumes "i + length ks \<le> length (sizes c)" and "i + length ks \<le> length (images c)"
    and "fillImages e i ks c = (None, c')"
  shows "\<forall>j<length ks.
      (segments e (ks ! j) = None \<longrightarrow> images c' ! (i + j) = images c ! (i + j))
      \<and> (\<forall>seg. segments e (ks ! j) = Some seg \<longrightarrow>
            copyFromSegment (fst (sizes c ! (i + j))) (snd (sizes c ! (i + j))) seg
              = Inr (images c' ! (i + j)))"
  using assms
proof (induction ks arbitrary: i c)
  case Nil
  then show ?case by simp
next
  case (Cons k ks)
  from Cons.prems have i: "i < length (sizes c)" "i < length (images c)" by simp_all
  from i show ?case
  proof (cases rule: fillImage_cases [where e = e and k = k])
    case (absent ws)
    let ?c1 = "c\<lparr>cropWarnings := ws\<rparr>"
    from absent Cons.prems(3) have r: "fillImages e (Suc i) ks ?c1 = (None, c')" by simp
    have b: "Suc i + length ks \<le> length (sizes ?c1)" "Suc i + length ks \<le> length (images ?c1)"
      using Cons.prems by simp_all
    from fillImages_frame [OF b r] have here: "images c' ! i = images c ! i" by simp
    show ?thesis
    proof (intro allI impI)
      fix j assume j: "j < length (k # ks)"
      show "(segments e ((k # ks) ! j) = None \<longrightarrow> images c' ! (i + j) = images c ! (i + j))
        \<and> (\<forall>seg. segments e ((k # ks) ! j) = Some seg \<longrightarrow>
            copyFromSegment (fst (sizes c ! (i + j))) (snd (sizes c ! (i + j))) seg
              = Inr (images c' ! (i + j)))"
      proof (cases j)
        case 0
        with absent here show ?thesis by simp
      next
        case (Suc j')
        with j Cons.IH [OF b r] show ?thesis by simp
      qed
    qed
  next
    case (copied seg g ws)
    let ?c1 = "c\<lparr>images := (images c)[i := g], cropWarnings := ws\<rparr>"
    from copied Cons.prems(3) have r: "fillImages e (Suc i) ks ?c1 = (None, c')" by simp
    have b: "Suc i + length ks \<le> length (sizes ?c1)" "Suc i + length ks \<le> length (images ?c1)"
      using Cons.prems by simp_all
    from fillImages_frame [OF b r] i have here: "images c' ! i = g" by simp
    show ?thesis
    proof (intro allI impI)
      fix j assume j: "j < length (k # ks)"
      show "(segments e ((k # ks) ! j) = None \<longrightarrow> images c' ! (i + j) = images c ! (i + j))
        \<and> (\<forall>seg. segments e ((k # ks) ! j) = Some seg \<longrightarrow>
            copyFromSegment (fst (sizes c ! (i + j))) (snd (sizes c ! (i + j))) seg
              = Inr (images c' ! (i + j)))"
      proof (cases j)
        case 0
        with copied here show ?thesis by simp
      next
        case (Suc j')
        with j Cons.IH [OF b r] show ?thesis by simp
      qed
    qed
  next
    case (failed seg err' ws)
    with Cons.prems(3) show ?thesis by simp
  qed
qed

lemma fillImages_total:
  assumes "i + length ks \<le> length (sizes c)" and "i + length ks \<le> length (images c)"
    and "\<forall>j<length ks. \<forall>seg. segments e (ks ! j) = Some seg \<longrightarrow>
           (\<exists>g. copyFromSegment (fst (sizes c ! (i + j))) (snd (sizes c ! (i + j))) seg = Inr g)"
  shows "fst (fillImages e i ks c) = None"
  using assms
proof (induction ks arbitrary: i c)
  case Nil
  then show ?case by simp
next
  case (Cons k ks)
  from Cons.prems have i: "i < length (sizes c)" "i < length (images c)" by simp_all
  have next_ok: "\<forall>j<length ks. \<forall>seg. segments e (ks ! j) = Some seg \<longrightarrow>
           (\<exists>g. copyFromSegment (fst (sizes c ! (Suc i + j))) (snd (sizes c ! (Suc i + j))) seg = Inr g)"
  proof (intro allI impI)
    fix j seg assume "j < length ks" "segments e (ks ! j) = Some seg"
    with Cons.prems(3) [rule_format, of "Suc j" seg]
    show "\<exists>g. copyFromSegment (fst (sizes c ! (Suc i + j))) (snd (sizes c ! (Suc i + j))) seg = Inr g"
      by simp
  qed
  from i show ?case
  proof (cases rule: fillImage_cases [where e = e and k = k])
    case (absent ws)
    let ?c1 = "c\<lparr>cropWarnings := ws\<rparr>"
    have "fst (fillImages e (Suc i) ks ?c1) = None"
      by (rule Cons.IH) (use Cons.prems next_ok in simp_all)
    with absent show ?thesis by simp
  next
    case (copied seg g ws)
    let ?c1 = "c\<lparr>images := (images c)[i := g], cropWarnings := ws\<rparr>"
    have "fst (fillImages e (Suc i) ks ?c1) = None"
      by (rule Cons.IH) (use Cons.prems next_ok in simp_all)
    with copied show ?thesis by simp
  next
    case (failed seg err' ws)
    with Cons.prems(3) [rule_format, of 0 seg] show ?thesis by simp
  qed
qed



text \<open>The function on an answer that is not empty and whose lines have at least four
  fields.\<close>

lemma getCroppedImages_core:
  fixes e :: "('a, 'd::{zero,one,ord}) env"
  assumes ans: "host e (length (sent w)) (cropMessage e (cropRect x y width height) mode) = answer"
    and ne: "answer \<noteq> []"
    and fields: "\<forall>l \<in> set (splitSkipEmpty answer (CHR 0x0A)). 4 \<le> length (splitSkipEmpty l (CHR '',''))"
    and res: "getCroppedImages e images0 names0 x y width height mode w = (err, imgs, names, w')"
  shows "err \<noteq> Some IndexOutOfRange"
    and "length imgs = length (splitSkipEmpty answer (CHR 0x0A))"
    and "length names = length (splitSkipEmpty answer (CHR 0x0A))"
    and "\<forall>i<length (splitSkipEmpty answer (CHR 0x0A)).
           names ! i = cstring (fromHex (splitSkipEmpty (splitSkipEmpty answer (CHR 0x0A) ! i) (CHR '','') ! 1))"
    and "err = None \<longrightarrow> (\<forall>i<length (splitSkipEmpty answer (CHR 0x0A)).
           (segments e (splitSkipEmpty (splitSkipEmpty answer (CHR 0x0A) ! i) (CHR '','') ! 0) = None
              \<longrightarrow> imgs ! i = imageSlot e i)
           \<and> (\<forall>seg. segments e (splitSkipEmpty (splitSkipEmpty answer (CHR 0x0A) ! i) (CHR '','') ! 0) = Some seg
              \<longrightarrow> copyFromSegment
                    (toInt (splitSkipEmpty (splitSkipEmpty answer (CHR 0x0A) ! i) (CHR '','') ! 2))
                    (toInt (splitSkipEmpty (splitSkipEmpty answer (CHR 0x0A) ! i) (CHR '','') ! 3)) seg
                  = Inr (imgs ! i)))"
    and "(\<forall>i<length (splitSkipEmpty answer (CHR 0x0A)). \<forall>seg.
            segments e (splitSkipEmpty (splitSkipEmpty answer (CHR 0x0A) ! i) (CHR '','') ! 0) = Some seg
            \<longrightarrow> (\<exists>g. copyFromSegment
                    (toInt (splitSkipEmpty (splitSkipEmpty answer (CHR 0x0A) ! i) (CHR '','') ! 2))
                    (toInt (splitSkipEmpty (splitSkipEmpty answer (CHR 0x0A) ! i) (CHR '','') ! 3)) seg
                  = Inr g))
          \<longrightarrow> err = None"
proof -
  let ?ls = "splitSkipEmpty answer (CHR 0x0A)"
  let ?w1 = "w\<lparr>sent := sent w @ [cropMessage e (cropRect x y width height) mode]\<rparr>"
  let ?c0 = "\<lparr>memoryKeys = [], sizes = [], images = map (imageSlot e) [0 ..< length ?ls],
              imageNames = map (nameSlot e) [0 ..< length ?ls], cropWarnings = warnings ?w1\<rparr>"
  have "0 + length ?ls \<le> length (imageNames ?c0)" by simp
  from parseLayers_fields [OF fields this] obtain c1 where
    p: "parseLayers 0 ?ls ?c0 = (None, c1)"
    and k: "memoryKeys c1 = map (\<lambda>l. splitSkipEmpty l (CHR '','') ! 0) ?ls"
    and s: "sizes c1 = map (\<lambda>l. (toInt (splitSkipEmpty l (CHR '','') ! 2),
                                   toInt (splitSkipEmpty l (CHR '','') ! 3))) ?ls"
    and im: "images c1 = map (imageSlot e) [0 ..< length ?ls]"
    and ln: "length (imageNames c1) = length ?ls"
    and nm: "\<forall>j<length ?ls. imageNames c1 ! j = cstring (fromHex (splitSkipEmpty (?ls ! j) (CHR '','') ! 1))"
    by auto
  obtain err2 c2 where f: "fillImages e 0 (memoryKeys c1) c1 = (err2, c2)"
    by (cases "fillImages e 0 (memoryKeys c1) c1") auto
  have b: "0 + length (memoryKeys c1) \<le> length (sizes c1)"
    "0 + length (memoryKeys c1) \<le> length (images c1)"
    using k s im by simp_all
  from fillImages_frame [OF b f] have fr: "err2 \<noteq> Some IndexOutOfRange"
    "imageNames c2 = imageNames c1" "length (images c2) = length (images c1)" by simp_all
  from res ans ne p f have out: "err = err2" "imgs = images c2" "names = imageNames c2"
    by (auto simp: getCroppedImages_def request_def Let_def split: prod.splits option.splits)
  show "err \<noteq> Some IndexOutOfRange" using out fr by simp
  show "length imgs = length ?ls" using out fr im by simp
  show "length names = length ?ls" using out fr ln by simp
  show "\<forall>i<length ?ls. names ! i = cstring (fromHex (splitSkipEmpty (?ls ! i) (CHR '','') ! 1))"
    using out fr nm by simp
  show "err = None \<longrightarrow> (\<forall>i<length ?ls.
           (segments e (splitSkipEmpty (?ls ! i) (CHR '','') ! 0) = None \<longrightarrow> imgs ! i = imageSlot e i)
           \<and> (\<forall>seg. segments e (splitSkipEmpty (?ls ! i) (CHR '','') ! 0) = Some seg
              \<longrightarrow> copyFromSegment (toInt (splitSkipEmpty (?ls ! i) (CHR '','') ! 2))
                    (toInt (splitSkipEmpty (?ls ! i) (CHR '','') ! 3)) seg = Inr (imgs ! i)))"
  proof (intro impI allI)
    fix i assume e: "err = None" and i: "i < length ?ls"
    from e out f have "fillImages e 0 (memoryKeys c1) c1 = (None, c2)" by simp
    from fillImages_filled [OF b this] i k
    have "(segments e (memoryKeys c1 ! i) = None \<longrightarrow> images c2 ! (0 + i) = images c1 ! (0 + i))
      \<and> (\<forall>seg. segments e (memoryKeys c1 ! i) = Some seg \<longrightarrow>
            copyFromSegment (fst (sizes c1 ! (0 + i))) (snd (sizes c1 ! (0 + i))) seg
              = Inr (images c2 ! (0 + i)))"
      by simp
    with i k s im out
    show "(segments e (splitSkipEmpty (?ls ! i) (CHR '','') ! 0) = None \<longrightarrow> imgs ! i = imageSlot e i)
           \<and> (\<forall>seg. segments e (splitSkipEmpty (?ls ! i) (CHR '','') ! 0) = Some seg
              \<longrightarrow> copyFromSegment (toInt (splitSkipEmpty (?ls ! i) (CHR '','') ! 2))
                    (toInt (splitSkipEmpty (?ls ! i) (CHR '','') ! 3)) seg = Inr (imgs ! i))"
      by simp
  qed
  show "(\<forall>i<length ?ls. \<forall>seg.
            segments e (splitSkipEmpty (?ls ! i) (CHR '','') ! 0) = Some seg
            \<longrightarrow> (\<exists>g. copyFromSegment (toInt (splitSkipEmpty (?ls ! i) (CHR '','') ! 2))
                    (toInt (splitSkipEmpty (?ls ! i) (CHR '','') ! 3)) seg = Inr g))
          \<longrightarrow> err = None"
  proof
    assume a: "\<forall>i<length ?ls. \<forall>seg.
            segments e (splitSkipEmpty (?ls ! i) (CHR '','') ! 0) = Some seg
            \<longrightarrow> (\<exists>g. copyFromSegment (toInt (splitSkipEmpty (?ls ! i) (CHR '','') ! 2))
                    (toInt (splitSkipEmpty (?ls ! i) (CHR '','') ! 3)) seg = Inr g)"
    have "\<forall>j<length (memoryKeys c1). \<forall>seg. segments e (memoryKeys c1 ! j) = Some seg \<longrightarrow>
           (\<exists>g. copyFromSegment (fst (sizes c1 ! (0 + j))) (snd (sizes c1 ! (0 + j))) seg = Inr g)"
      using a k s by simp
    from fillImages_total [OF b this] f out show "err = None" by simp
  qed
qed





text \<open>The single line of the spec, decoded.\<close>

lemma layer01_line:
  "splitSkipEmpty ''key1,6c617965723031,4,2,2'' (CHR 0x0A) = [''key1,6c617965723031,4,2,2'']"
  "splitSkipEmpty ''key1,6c617965723031,4,2,2'' (CHR '','')
     = [''key1'', ''6c617965723031'', ''4'', ''2'', ''2'']"
  "cstring (fromHex ''6c617965723031'') = ''layer01''"
  "toInt ''4'' = 4" "toInt ''2'' = 2"
  by code_simp+

text \<open>
  C2, as the code has it. The line \<open>key1,6c617965723031,4,2,2\<close> has five fields. The
  code reads the third as the width and the fourth as the height, and ignores the fifth:
  with a segment \<open>key1\<close> of at least \<open>4 * 2 * 4 = 32\<close> samples the result is one image of
  width 4, height 2, depth 1 and 4 channels, named \<open>layer01\<close>.
\<close>

theorem getCroppedImages_single_line:
  fixes e :: "('a, 'd::{zero,one,ord}) env"
  assumes ans: "host e (length (sent w)) (cropMessage e (cropRect x y width height) mode)
      = ''key1,6c617965723031,4,2,2''"
    and seg: "segments e ''key1'' = Some seg"
    and len: "32 \<le> length seg"
  shows "\<exists>w'. getCroppedImages e images0 names0 x y width height mode w =
     (None, [\<lparr>img_width = 4, img_height = 2, img_depth = 1, img_spectrum = 4,
              img_data = take 32 seg\<rparr>], [''layer01''], w')"
proof -
  let ?answer = "''key1,6c617965723031,4,2,2''"
  obtain err imgs names w' where
    res: "getCroppedImages e images0 names0 x y width height mode w = (err, imgs, names, w')"
    by (cases "getCroppedImages e images0 names0 x y width height mode w") auto
  have ne: "?answer \<noteq> []" by simp
  have f: "\<forall>l \<in> set (splitSkipEmpty ?answer (CHR 0x0A)). 4 \<le> length (splitSkipEmpty l (CHR '',''))"
    by (simp add: layer01_line)
  note core = getCroppedImages_core [OF ans ne f res]
  have copy: "copyFromSegment 4 2 seg = Inr \<lparr>img_width = 4, img_height = 2, img_depth = 1,
      img_spectrum = 4, img_data = take 32 seg\<rparr>"
    using len by (simp add: copyFromSegment_def assign_def INT_MAX_def)
  have err: "err = None"
    using core(6) seg copy by (simp add: layer01_line)
  have l: "length imgs = 1" "length names = 1" using core(2,3) by (simp_all add: layer01_line)
  have n0: "names ! 0 = ''layer01''" using core(4) by (simp add: layer01_line)
  have i0: "imgs ! 0 = \<lparr>img_width = 4, img_height = 2, img_depth = 1, img_spectrum = 4,
      img_data = take 32 seg\<rparr>"
    using core(5) err seg copy by (simp add: layer01_line)
  from l n0 have "names = [''layer01'']" by (cases names) auto
  moreover from l i0 have "imgs = [\<lparr>img_width = 4, img_height = 2, img_depth = 1, img_spectrum = 4,
      img_data = take 32 seg\<rparr>]" by (cases imgs) auto
  ultimately show ?thesis using res err by simp
qed

theorem getCroppedImages_single_line_witness:
  "\<exists>w'. getCroppedImages (layer01 32) [] [] 0 0 1 1 0 initialWorld =
     (None, [\<lparr>img_width = 4, img_height = 2, img_depth = 1, img_spectrum = 4,
              img_data = replicate 32 0\<rparr>], [''layer01''], w')"
proof -
  have a: "host (layer01 32) (length (sent initialWorld)) (cropMessage (layer01 32) (cropRect 0 0 1 1) 0)
      = ''key1,6c617965723031,4,2,2''"
    by (simp add: layer01_def answering_def)
  have b: "segments (layer01 32) ''key1'' = Some (replicate 32 0)" by (simp add: layer01_def)
  have c: "32 \<le> length (replicate 32 (0::nat))" by simp
  show ?thesis using getCroppedImages_single_line [OF a b c, of "[]" "[]"] by simp
qed

text \<open>
  The image is 4 wide and 2 high, not 2 by 2: the claim C2 as it is written fails. With
  the 16 samples of a 2 by 2 image of 4 channels in the segment, the copy of 32 samples
  reads past its end.
\<close>

theorem getCroppedImages_single_line_not_2x2:
  "map img_width (fst (snd (getCroppedImages (layer01 32) [] [] 0 0 1 1 0 initialWorld))) = [4]
   \<and> map img_height (fst (snd (getCroppedImages (layer01 32) [] [] 0 0 1 1 0 initialWorld))) = [2]
   \<and> fst (getCroppedImages (layer01 16) [] [] 0 0 1 1 0 initialWorld) = Some ReadPastSegment"
  by code_simp

text \<open>
  C3 does not hold of the code. On an answer whose first line has three fields the warning
  is written, and then the field of index 3 is read, which does not exist: the access is
  out of range, and the second line is never parsed (its name is still the one
  \<^verbatim>\<open>assign\<close> left).
\<close>

theorem getCroppedImages_short_line:
  "fst (getCroppedImages (answering (''k1,6162,3'' @ [CHR 0x0A] @ ''k2,6c,1,1'')) [] [] 0 0 1 1 0
      initialWorld) = Some IndexOutOfRange
   \<and> fst (snd (snd (getCroppedImages (answering (''k1,6162,3'' @ [CHR 0x0A] @ ''k2,6c,1,1'')) [] [] 0 0 1 1 0
      initialWorld))) = [''ab'', []]
   \<and> warnings (snd (snd (snd (getCroppedImages (answering (''k1,6162,3'' @ [CHR 0x0A] @ ''k2,6c,1,1''))
      [] [] 0 0 1 1 0 initialWorld)))) = [CHR 0x09 # ''gmic-qt: Got the wrong answer!'']"
  by code_simp

text \<open>
  X1. What holds of lines with a wrong number of fields: when every line of the answer has
  at least four fields (some may have more), no field access is out of range, both lists
  have one entry for each line, and the name of index \<open>i\<close> is decoded from the second field
  of the line of index \<open>i\<close>.
\<close>

theorem getCroppedImages_long_lines:
  fixes e :: "('a, 'd::{zero,one,ord}) env"
  assumes "host e (length (sent w)) (cropMessage e (cropRect x y width height) mode) = answer"
    and "answer \<noteq> []"
    and "splitSkipEmpty answer (CHR 0x0A) = lines"
    and "\<forall>l \<in> set lines. 4 \<le> length (fieldsOf l)"
    and "getCroppedImages e images0 names0 x y width height mode w = (err, imgs, names, w')"
  shows "err \<noteq> Some IndexOutOfRange
    \<and> length imgs = length lines
    \<and> length names = length lines
    \<and> (\<forall>i<length lines. names ! i = cstring (fromHex (fieldsOf (lines ! i) ! 1)))"
proof -
  have f: "\<forall>l \<in> set (splitSkipEmpty answer (CHR 0x0A)). 4 \<le> length (fieldsOf l)"
    using assms(3,4) by simp
  note core = getCroppedImages_core [OF assms(1,2) f assms(5), unfolded assms(3)]
  from core(1-4) show ?thesis by blast
qed

theorem getCroppedImages_long_lines_witness:
  "fst (getCroppedImages (layer01 32) [] [] 0 0 1 1 0 initialWorld) \<noteq> Some IndexOutOfRange
   \<and> length (fst (snd (getCroppedImages (layer01 32) [] [] 0 0 1 1 0 initialWorld))) = 1
   \<and> fst (snd (snd (getCroppedImages (layer01 32) [] [] 0 0 1 1 0 initialWorld))) ! 0 = ''layer01''"
proof -
  let ?r = "getCroppedImages (layer01 32) [] [] 0 0 1 1 0 initialWorld"
  have a: "host (layer01 32) (length (sent initialWorld)) (cropMessage (layer01 32) (cropRect 0 0 1 1) 0)
      = ''key1,6c617965723031,4,2,2''"
    by (simp add: layer01_def answering_def)
  have b: "''key1,6c617965723031,4,2,2'' \<noteq> []" by simp
  have c: "\<forall>l \<in> set [''key1,6c617965723031,4,2,2'']. 4 \<le> length (fieldsOf l)"
    by (simp add: layer01_line)
  have d: "?r = (fst ?r, fst (snd ?r), fst (snd (snd ?r)), snd (snd (snd ?r)))" by simp
  show ?thesis using getCroppedImages_long_lines [OF a b layer01_line(1) c d]
    by (simp add: layer01_line)
qed




subsection \<open>outputImages\<close>

lemma at_Inr: "i < length xs \<Longrightarrow> at xs i = Inr (xs ! i)"
  by (simp add: at_def)

lemma at_Inl: "\<not> i < length xs \<Longrightarrow> at xs i = Inl IndexOutOfRange"
  by (simp add: at_def)

lemma detachSegment_length: "length (detachSegment p h) = length h"
  by (simp add: detachSegment_def)

lemma deleteSegment_length: "length (deleteSegment p h) = length h"
  by (simp add: deleteSegment_def)

lemma fold_detachSegment_length: "length (fold detachSegment ps h) = length h"
  by (induction ps arbitrary: h) (simp_all add: detachSegment_length)

lemma fold_deleteSegment_length: "length (fold deleteSegment ps h) = length h"
  by (induction ps arbitrary: h) (simp_all add: deleteSegment_length)

lemma deleteSegment_keeps:
  "q < length h \<Longrightarrow> \<not> shm_attached (h ! q) \<and> shm_deleted (h ! q) \<Longrightarrow>
   \<not> shm_attached (deleteSegment p h ! q) \<and> shm_deleted (deleteSegment p h ! q)"
  by (cases "p = q") (simp_all add: deleteSegment_def)

lemma fold_deleteSegment_keeps:
  "q < length h \<Longrightarrow> \<not> shm_attached (h ! q) \<and> shm_deleted (h ! q) \<Longrightarrow>
   \<not> shm_attached (fold deleteSegment ps h ! q) \<and> shm_deleted (fold deleteSegment ps h ! q)"
proof (induction ps arbitrary: h)
  case Nil
  then show ?case by simp
next
  case (Cons p ps)
  have "q < length (deleteSegment p h)" using Cons.prems by (simp add: deleteSegment_length)
  moreover have "\<not> shm_attached (deleteSegment p h ! q) \<and> shm_deleted (deleteSegment p h ! q)"
    using Cons.prems by (rule deleteSegment_keeps)
  ultimately show ?case using Cons.IH [of "deleteSegment p h"] by simp
qed

lemma fold_deleteSegment_deleted:
  "q \<in> set ps \<Longrightarrow> q < length h \<Longrightarrow>
   \<not> shm_attached (fold deleteSegment ps h ! q) \<and> shm_deleted (fold deleteSegment ps h ! q)"
proof (induction ps arbitrary: h)
  case Nil
  then show ?case by simp
next
  case (Cons p ps)
  show ?case
  proof (cases "p = q")
    case True
    have "q < length (deleteSegment p h)" using Cons.prems by (simp add: deleteSegment_length)
    moreover have "\<not> shm_attached (deleteSegment p h ! q) \<and> shm_deleted (deleteSegment p h ! q)"
      using True Cons.prems by (simp add: deleteSegment_def)
    ultimately show ?thesis using fold_deleteSegment_keeps [of q "deleteSegment p h" ps] by simp
  next
    case False
    with Cons.prems have "q \<in> set ps" by simp
    moreover have "q < length (deleteSegment p h)" using Cons.prems by (simp add: deleteSegment_length)
    ultimately show ?thesis using Cons.IH [of "deleteSegment p h"] by simp
  qed
qed

lemma releaseSegments_simps:
  "sharedMemorySegments (releaseSegments w) = []"
  "uuids (releaseSegments w) = uuids w"
  "sent (releaseSegments w) = sent w"
  "warnings (releaseSegments w) = warnings w"
  "length (heap (releaseSegments w)) = length (heap w)"
  by (simp_all add: releaseSegments_def Let_def fold_detachSegment_length fold_deleteSegment_length)

lemma releaseSegments_deleted:
  assumes "p \<in> set (sharedMemorySegments w)" "p < length (heap w)"
  shows "\<not> shm_attached (heap (releaseSegments w) ! p) \<and> shm_deleted (heap (releaseSegments w) ! p)"
proof -
  have "p < length (fold detachSegment (sharedMemorySegments w) (heap w))"
    using assms(2) by (simp add: fold_detachSegment_length)
  with assms(1) show ?thesis
    by (simp add: releaseSegments_def Let_def fold_deleteSegment_deleted)
qed

lemma outputLoop_Cons:
  "outputLoop e i (gimg # rest) names message w =
     (if \<not> create_ok e (segmentKey e (uuids w)) (segmentSamples gimg * 4)
      then (Some CreateFailed, message, qWarning ''Could not create shared memory'' (newSegment e w))
      else if \<not> i < length names then (Some (Crashed IndexOutOfRange), message, createdSegment e gimg w)
      else outputLoop e (Suc i) rest names
             (message @ layerLine (segmentKey e (uuids w)) (names ! i) gimg) (createdSegment e gimg w))"
  by (simp add: Let_def newSegment_def createdSegment_def at_def)

declare outputLoop.simps(2) [simp del]

lemma newSegment_simps:
  "length (heap (newSegment e w)) = Suc (length (heap w))"
  "uuids (newSegment e w) = Suc (uuids w)"
  "sharedMemorySegments (newSegment e w) = sharedMemorySegments w @ [length (heap w)]"
  "sent (newSegment e w) = sent w"
  "take (length (heap w)) (heap (newSegment e w)) = heap w"
  "\<not> shm_deleted (heap (newSegment e w) ! length (heap w))"
  by (simp_all add: newSegment_def)

lemma createdSegment_simps:
  "length (heap (createdSegment e gimg w)) = Suc (length (heap w))"
  "uuids (createdSegment e gimg w) = Suc (uuids w)"
  "sharedMemorySegments (createdSegment e gimg w) = sharedMemorySegments w @ [length (heap w)]"
  "sent (createdSegment e gimg w) = sent w"
  "take (length (heap w)) (heap (createdSegment e gimg w)) = heap w"
  "\<not> shm_deleted (heap (createdSegment e gimg w) ! length (heap w))"
  by (simp_all add: createdSegment_def newSegment_def)

lemma qWarning_simps:
  "heap (qWarning m w) = heap w" "uuids (qWarning m w) = uuids w"
  "sharedMemorySegments (qWarning m w) = sharedMemorySegments w" "sent (qWarning m w) = sent w"
  by (simp_all add: qWarning_def)

lemma grown_one:
  assumes "length (heap w1) = Suc (length (heap w))" "uuids w1 = Suc (uuids w)"
    "sharedMemorySegments w1 = sharedMemorySegments w @ [length (heap w)]"
    "sent w1 = sent w" "take (length (heap w)) (heap w1) = heap w"
    "\<not> shm_deleted (heap w1 ! length (heap w))"
  shows "grown w w1 1"
  using assms by (auto simp: grown_def le_less_Suc_eq)

lemma grown_step:
  assumes one: "grown w w1 1" and more: "grown w1 w' n"
  shows "grown w w' (Suc n)"
proof -
  let ?m = "length (heap w)"
  from one have l1: "length (heap w1) = Suc ?m" and t1: "take ?m (heap w1) = heap w"
    and r1: "sharedMemorySegments w1 = sharedMemorySegments w @ [?m]"
    and d1: "\<not> shm_deleted (heap w1 ! ?m)"
    by (auto simp: grown_def)
  from more l1 have l: "length (heap w') = ?m + Suc n" and t: "take (Suc ?m) (heap w') = heap w1"
    and r: "sharedMemorySegments w' = sharedMemorySegments w1 @ [Suc ?m ..< Suc ?m + n]"
    and d: "\<forall>p. Suc ?m \<le> p \<and> p < length (heap w') \<longrightarrow> \<not> shm_deleted (heap w' ! p)"
    by (auto simp: grown_def)
  have "take ?m (heap w') = take ?m (take (Suc ?m) (heap w'))" by (simp add: min_def)
  with t t1 have tk: "take ?m (heap w') = heap w" by simp
  have "heap w' ! ?m = take (Suc ?m) (heap w') ! ?m" by simp
  with t d1 have dm: "\<not> shm_deleted (heap w' ! ?m)" by simp
  have reg: "sharedMemorySegments w' = sharedMemorySegments w @ [?m ..< ?m + Suc n]"
    using r r1 by (simp add: upt_conv_Cons)
  have del: "\<forall>p. ?m \<le> p \<and> p < length (heap w') \<longrightarrow> \<not> shm_deleted (heap w' ! p)"
  proof (intro allI impI)
    fix p assume "?m \<le> p \<and> p < length (heap w')"
    then show "\<not> shm_deleted (heap w' ! p)" using d dm by (cases "p = ?m") auto
  qed
  from one more have "uuids w' = uuids w + Suc n" "sent w' = sent w" by (auto simp: grown_def)
  with l tk reg del show ?thesis unfolding grown_def by blast
qed

lemma outputLoop_grown:
  "outputLoop e i imgs names message w = (st, message', w') \<Longrightarrow>
   \<exists>n. n \<le> length imgs \<and> (st = None \<longrightarrow> n = length imgs) \<and> grown w w' n"
proof (induction imgs arbitrary: i message w)
  case Nil
  then show ?case by (auto simp: grown_def)
next
  case (Cons gimg rest)
  let ?k = "segmentKey e (uuids w)"
  show ?case
  proof (cases "create_ok e ?k (segmentSamples gimg * 4)")
    case False
    with Cons.prems have w': "w' = qWarning ''Could not create shared memory'' (newSegment e w)"
      and st: "st = Some CreateFailed"
      by (auto simp: outputLoop_Cons)
    have "grown w w' 1" unfolding w'
      by (rule grown_one) (simp_all add: qWarning_simps newSegment_simps)
    with st show ?thesis by (intro exI [of _ 1]) simp
  next
    case True
    have one: "grown w (createdSegment e gimg w) 1"
      by (rule grown_one) (simp_all add: createdSegment_simps)
    show ?thesis
    proof (cases "i < length names")
      case False
      with True Cons.prems have "w' = createdSegment e gimg w" "st = Some (Crashed IndexOutOfRange)"
        by (auto simp: outputLoop_Cons)
      with one show ?thesis by (intro exI [of _ 1]) simp
    next
      case inr: True
      with True Cons.prems have
        "outputLoop e (Suc i) rest names (message @ layerLine ?k (names ! i) gimg)
           (createdSegment e gimg w) = (st, message', w')"
        by (simp add: outputLoop_Cons)
      from Cons.IH [OF this] obtain n where
        n: "n \<le> length rest" "st = None \<longrightarrow> n = length rest" "grown (createdSegment e gimg w) w' n"
        by blast
      from one n(3) have "grown w w' (Suc n)" by (rule grown_step)
      with n show ?thesis by (intro exI [of _ "Suc n"]) simp
    qed
  qed
qed

lemma outputLoop_create_fails:
  "k < length imgs \<Longrightarrow>
   \<forall>j<k. create_ok e (segmentKey e (uuids w + j)) (segmentSamples (imgs ! j) * 4) \<Longrightarrow>
   \<not> create_ok e (segmentKey e (uuids w + k)) (segmentSamples (imgs ! k) * 4) \<Longrightarrow>
   i + k \<le> length names \<Longrightarrow>
   \<exists>message' w'. outputLoop e i imgs names message w = (Some CreateFailed, message', w')
      \<and> grown w w' (Suc k)"
proof (induction imgs arbitrary: k i message w)
  case Nil
  then show ?case by simp
next
  case (Cons gimg rest)
  show ?case
  proof (cases k)
    case 0
    with Cons.prems have "\<not> create_ok e (segmentKey e (uuids w)) (segmentSamples gimg * 4)"
      by simp
    then have "outputLoop e i (gimg # rest) names message w =
        (Some CreateFailed, message, qWarning ''Could not create shared memory'' (newSegment e w))"
      by (simp add: outputLoop_Cons)
    moreover have "grown w (qWarning ''Could not create shared memory'' (newSegment e w)) 1"
      by (rule grown_one) (simp_all add: qWarning_simps newSegment_simps)
    ultimately show ?thesis using 0 by simp
  next
    case (Suc k')
    let ?w2 = "createdSegment e gimg w"
    let ?m2 = "message @ layerLine (segmentKey e (uuids w)) (names ! i) gimg"
    from Cons.prems(2) Suc have ok: "create_ok e (segmentKey e (uuids w)) (segmentSamples gimg * 4)"
      by (metis add.right_neutral nth_Cons_0 zero_less_Suc)
    from Cons.prems(4) Suc have i: "i < length names" by simp
    from ok i have step: "outputLoop e i (gimg # rest) names message w =
        outputLoop e (Suc i) rest names ?m2 ?w2"
      by (simp add: outputLoop_Cons)
    have a: "k' < length rest" using Cons.prems(1) Suc by simp
    have b: "\<forall>j<k'. create_ok e (segmentKey e (uuids ?w2 + j)) (segmentSamples (rest ! j) * 4)"
    proof (intro allI impI)
      fix j assume "j < k'"
      then have "Suc j < k" using Suc by simp
      with Cons.prems(2) have "create_ok e (segmentKey e (uuids w + Suc j))
          (segmentSamples ((gimg # rest) ! Suc j) * 4)" by blast
      then show "create_ok e (segmentKey e (uuids ?w2 + j)) (segmentSamples (rest ! j) * 4)"
        by (simp add: createdSegment_simps)
    qed
    have c: "\<not> create_ok e (segmentKey e (uuids ?w2 + k')) (segmentSamples (rest ! k') * 4)"
      using Cons.prems(3) Suc by (simp add: createdSegment_simps)
    have d: "Suc i + k' \<le> length names" using Cons.prems(4) Suc by simp
    from Cons.IH [OF a b c d, of ?m2] obtain message' w' where
      r: "outputLoop e (Suc i) rest names ?m2 ?w2 = (Some CreateFailed, message', w')"
      and g: "grown ?w2 w' (Suc k')" by blast
    have "grown w ?w2 1" by (rule grown_one) (simp_all add: createdSegment_simps)
    then have "grown w w' (Suc (Suc k'))" using g by (rule grown_step)
    with step r Suc show ?thesis by simp
  qed
qed

lemma outputLoop_all_created:
  "outputLoop e i imgs names message w = (Some CreateFailed, message', w') \<Longrightarrow>
   \<exists>j<length imgs. \<not> create_ok e (segmentKey e (uuids w + j)) (segmentSamples (imgs ! j) * 4)"
proof (induction imgs arbitrary: i message w)
  case Nil
  then show ?case by simp
next
  case (Cons gimg rest)
  show ?case
  proof (cases "create_ok e (segmentKey e (uuids w)) (segmentSamples gimg * 4)")
    case False
    then show ?thesis by (intro exI [of _ 0]) simp
  next
    case True
    with Cons.prems have i: "i < length names"
      by (auto simp: outputLoop_Cons split: if_splits)
    with True Cons.prems have
      "outputLoop e (Suc i) rest names (message @ layerLine (segmentKey e (uuids w)) (names ! i) gimg)
         (createdSegment e gimg w) = (Some CreateFailed, message', w')"
      by (simp add: outputLoop_Cons)
    from Cons.IH [OF this] obtain j where "j < length rest"
      "\<not> create_ok e (segmentKey e (uuids (createdSegment e gimg w) + j)) (segmentSamples (rest ! j) * 4)"
      by blast
    then show ?thesis by (intro exI [of _ "Suc j"]) (simp add: createdSegment_simps)
  qed
qed

lemma outputImages_cases:
  assumes "outputImages e imgs names mode w = (None, w')"
  obtains (aborted) message' where
      "outputLoop e 0 imgs names (''command=gmic_qt_output_images'' @ [CHR 0x0A] @ ''mode='' @ intToString mode
          @ [CHR 0x0A]) (releaseSegments w) = (Some CreateFailed, message', w')"
  | (sent) message' w1 where
      "outputLoop e 0 imgs names (''command=gmic_qt_output_images'' @ [CHR 0x0A] @ ''mode='' @ intToString mode
          @ [CHR 0x0A]) (releaseSegments w) = (None, message', w1)"
      "w' = w1\<lparr>sent := sent w1 @ [message']\<rparr>"
  using assms
  by (auto simp: outputImages_def Let_def request_def split: prod.splits option.splits stop.splits)

lemma outputImages_registry:
  assumes "outputImages e imgs names mode w = (None, w')"
  shows "\<exists>n. n \<le> length imgs
     \<and> ((\<forall>j<length imgs. create_ok e (segmentKey e (uuids w + j)) (segmentSamples (imgs ! j) * 4))
          \<longrightarrow> n = length imgs)
     \<and> length (heap w') = length (heap w) + n \<and> uuids w' = uuids w + n
     \<and> sharedMemorySegments w' = [length (heap w) ..< length (heap w) + n]
     \<and> take (length (heap w)) (heap w') = heap (releaseSegments w)
     \<and> (\<forall>p. length (heap w) \<le> p \<and> p < length (heap w') \<longrightarrow> \<not> shm_deleted (heap w' ! p))"
  using assms
proof (cases rule: outputImages_cases)
  case (aborted message')
  from outputLoop_grown [OF aborted] obtain n where
    n: "n \<le> length imgs" "grown (releaseSegments w) w' n" by blast
  from outputLoop_all_created [OF aborted]
  have "\<not> (\<forall>j<length imgs. create_ok e (segmentKey e (uuids w + j)) (segmentSamples (imgs ! j) * 4))"
    by (auto simp: releaseSegments_simps)
  with n show ?thesis
    by (intro exI [of _ n]) (auto simp: grown_def releaseSegments_simps)
next
  case (sent message' w1)
  from outputLoop_grown [OF sent(1)] obtain n where
    n: "n = length imgs" "grown (releaseSegments w) w1 n" by blast
  with sent(2) show ?thesis
    by (intro exI [of _ n]) (auto simp: grown_def releaseSegments_simps)
qed

lemmas outputImages_eval =
  outputImages_def releaseSegments_def detachSegment_def deleteSegment_def outputLoop_Cons newSegment_def createdSegment_def
  segmentSamples_def segmentKey_def qWarning_def request_def strict_def answering_def
  initialWorld_def pixel_def emptyImage_def Let_def

text \<open>
  C8. When \<^verbatim>\<open>create\<close> fails for the image of index \<open>k\<close> (and has succeeded for the
  images before it, each of which has a name), \<open>outputImages\<close> returns at once: the
  command is not sent, and exactly \<open>k + 1\<close> objects were made and \<open>k + 1\<close> UUIDs drawn,
  those of the images 0 to \<open>k\<close>, so no image after \<open>k\<close> is processed.
\<close>

theorem outputImages_create_fails:
  assumes "k < length imgs"
    and "\<forall>j<k. create_ok e (segmentKey e (uuids w + j)) (segmentSamples (imgs ! j) * 4)"
    and "\<not> create_ok e (segmentKey e (uuids w + k)) (segmentSamples (imgs ! k) * 4)"
    and "k \<le> length names"
  shows "\<exists>w'. outputImages e imgs names mode w = (None, w')
     \<and> sent w' = sent w
     \<and> length (sharedMemorySegments w') = Suc k
     \<and> length (heap w') = length (heap w) + Suc k
     \<and> uuids w' = uuids w + Suc k"
proof -
  let ?w0 = "releaseSegments w"
  let ?m = "''command=gmic_qt_output_images'' @ [CHR 0x0A] @ ''mode='' @ intToString mode @ [CHR 0x0A]"
  have a: "\<forall>j<k. create_ok e (segmentKey e (uuids ?w0 + j)) (segmentSamples (imgs ! j) * 4)"
    using assms(2) by (simp add: releaseSegments_simps)
  have b: "\<not> create_ok e (segmentKey e (uuids ?w0 + k)) (segmentSamples (imgs ! k) * 4)"
    using assms(3) by (simp add: releaseSegments_simps)
  have c: "0 + k \<le> length names" using assms(4) by simp
  from outputLoop_create_fails [OF assms(1) a b c, of ?m] obtain message' w' where
    r: "outputLoop e 0 imgs names ?m ?w0 = (Some CreateFailed, message', w')"
    and g: "grown ?w0 w' (Suc k)" by blast
  from r have "outputImages e imgs names mode w = (None, w')"
    by (simp add: outputImages_def Let_def)
  moreover from g have "sent w' = sent w" "length (sharedMemorySegments w') = Suc k"
    "length (heap w') = length (heap w) + Suc k" "uuids w' = uuids w + Suc k"
    by (simp_all add: grown_def releaseSegments_simps)
  ultimately show ?thesis by simp
qed

theorem outputImages_create_fails_witness:
  "\<exists>w'. outputImages strict [pixel, emptyImage, pixel] [''a'', ''b'', ''c''] 0 initialWorld = (None, w')
     \<and> sent w' = [] \<and> length (sharedMemorySegments w') = 2 \<and> length (heap w') = 2 \<and> uuids w' = 2"
proof -
  have a: "1 < length [pixel, emptyImage, pixel]" by simp
  have b: "\<forall>j<1. create_ok strict (segmentKey strict (uuids initialWorld + j))
      (segmentSamples ([pixel, emptyImage, pixel] ! j) * 4)"
    by (simp add: strict_def pixel_def segmentSamples_def)
  have c: "\<not> create_ok strict (segmentKey strict (uuids initialWorld + 1))
      (segmentSamples ([pixel, emptyImage, pixel] ! 1) * 4)"
    by (simp add: strict_def emptyImage_def segmentSamples_def)
  have d: "1 \<le> length [''a'', ''b'', ''c'']" by simp
  show ?thesis
    using outputImages_create_fails [OF a b c d, of 0]
    by (simp add: initialWorld_def numeral_2_eq_2)
qed

text \<open>
  C7, as the code has it. After two calls of \<open>outputImages\<close> that both return, the vector
  holds exactly the objects the second call made, none of them deleted; every object the
  first call left in the vector is detached and deleted; and the vector has at most as
  many entries as the second batch has images, and as many when every \<^verbatim>\<open>create\<close> of
  the second call succeeds. When a \<^verbatim>\<open>create\<close> fails, the function returns at line 265
  and the vector is shorter than the batch.
\<close>

theorem outputImages_twice:
  assumes first: "outputImages e imgs1 names1 mode1 w = (None, w1)"
    and second: "outputImages e imgs2 names2 mode2 w1 = (None, w2)"
  shows "sharedMemorySegments w2 = [length (heap w1) ..< length (heap w2)]
     \<and> length (sharedMemorySegments w2) \<le> length imgs2
     \<and> ((\<forall>j<length imgs2. create_ok e (segmentKey e (uuids w1 + j)) (segmentSamples (imgs2 ! j) * 4))
          \<longrightarrow> length (sharedMemorySegments w2) = length imgs2)
     \<and> (\<forall>p \<in> set (sharedMemorySegments w1).
          p < length (heap w1) \<and> \<not> shm_deleted (heap w1 ! p)
          \<and> \<not> shm_attached (heap w2 ! p) \<and> shm_deleted (heap w2 ! p))
     \<and> (\<forall>p \<in> set (sharedMemorySegments w2). \<not> shm_deleted (heap w2 ! p))"
proof -
  from outputImages_registry [OF first] obtain n1 where
    r1: "sharedMemorySegments w1 = [length (heap w) ..< length (heap w) + n1]"
    and l1: "length (heap w1) = length (heap w) + n1"
    and d1: "\<forall>p. length (heap w) \<le> p \<and> p < length (heap w1) \<longrightarrow> \<not> shm_deleted (heap w1 ! p)"
    by blast
  from outputImages_registry [OF second] obtain n2 where
    n2: "n2 \<le> length imgs2"
    and all2: "(\<forall>j<length imgs2. create_ok e (segmentKey e (uuids w1 + j)) (segmentSamples (imgs2 ! j) * 4))
          \<longrightarrow> n2 = length imgs2"
    and l2: "length (heap w2) = length (heap w1) + n2"
    and r2: "sharedMemorySegments w2 = [length (heap w1) ..< length (heap w1) + n2]"
    and t2: "take (length (heap w1)) (heap w2) = heap (releaseSegments w1)"
    and d2: "\<forall>p. length (heap w1) \<le> p \<and> p < length (heap w2) \<longrightarrow> \<not> shm_deleted (heap w2 ! p)"
    by blast
  have old: "\<forall>p \<in> set (sharedMemorySegments w1).
          p < length (heap w1) \<and> \<not> shm_deleted (heap w1 ! p)
          \<and> \<not> shm_attached (heap w2 ! p) \<and> shm_deleted (heap w2 ! p)"
  proof
    fix p assume p: "p \<in> set (sharedMemorySegments w1)"
    with r1 l1 have lt: "p < length (heap w1)" and ge: "length (heap w) \<le> p" by auto
    have "heap w2 ! p = take (length (heap w1)) (heap w2) ! p" using lt by simp
    then have "heap w2 ! p = heap (releaseSegments w1) ! p" using t2 by simp
    with releaseSegments_deleted [OF p lt] d1 lt ge
    show "p < length (heap w1) \<and> \<not> shm_deleted (heap w1 ! p)
          \<and> \<not> shm_attached (heap w2 ! p) \<and> shm_deleted (heap w2 ! p)" by simp
  qed
  have new: "\<forall>p \<in> set (sharedMemorySegments w2). \<not> shm_deleted (heap w2 ! p)"
    using r2 l2 d2 by auto
  from r2 l2 n2 all2 old new show ?thesis by simp
qed

theorem outputImages_twice_witness:
  "sharedMemorySegments (snd (outputImages strict [pixel, pixel] [''b'', ''c''] 0
       (snd (outputImages strict [pixel] [''a''] 0 initialWorld)))) = [1, 2]
   \<and> shm_deleted (heap (snd (outputImages strict [pixel, pixel] [''b'', ''c''] 0
       (snd (outputImages strict [pixel] [''a''] 0 initialWorld)))) ! 0)"
proof -
  let ?w1 = "snd (outputImages strict [pixel] [''a''] 0 initialWorld)"
  let ?w2 = "snd (outputImages strict [pixel, pixel] [''b'', ''c''] 0 ?w1)"
  have f1: "fst (outputImages strict [pixel] [''a''] 0 initialWorld) = None"
    by (simp add: outputImages_eval)
  have r1: "sharedMemorySegments ?w1 = [0]" "length (heap ?w1) = 1"
    by (simp_all add: outputImages_eval)
  have f2: "fst (outputImages strict [pixel, pixel] [''b'', ''c''] 0 ?w1) = None"
    by (simp add: outputImages_eval)
  have l2: "length (heap ?w2) = 3"
    by (simp add: outputImages_eval)
  have first: "outputImages strict [pixel] [''a''] 0 initialWorld = (None, ?w1)"
    using f1 by (simp add: prod_eq_iff)
  have second: "outputImages strict [pixel, pixel] [''b'', ''c''] 0 ?w1 = (None, ?w2)"
    using f2 by (simp add: prod_eq_iff)
  show ?thesis using outputImages_twice [OF first second] r1 l2
    by (simp add: upt_conv_Cons)
qed

text \<open>A second batch of two images whose first is empty: \<^verbatim>\<open>create\<close> refuses the size
  0, and the vector holds one object, not two. The claim C7 as it is written fails there.\<close>

theorem outputImages_twice_short:
  "fst (outputImages strict [pixel] [''a''] 0 initialWorld) = None
   \<and> fst (outputImages strict [emptyImage, pixel] [''b'', ''c''] 0
       (snd (outputImages strict [pixel] [''a''] 0 initialWorld))) = None
   \<and> length (sharedMemorySegments (snd (outputImages strict [emptyImage, pixel] [''b'', ''c''] 0
       (snd (outputImages strict [pixel] [''a''] 0 initialWorld))))) = 1
   \<and> length [emptyImage, pixel :: nat gmic_image] = 2"
  by (simp add: outputImages_eval)

subsection \<open>sendMessageSynchronously\<close>

lemma waitForHeader_silent:
  assumes h: "waitForHeader net s = Some r"
  shows "\<not> ((\<forall>t. events net t = Timeout) \<and> valid s \<and> length (available s) < 4)"
proof (rule waitForHeader.raw_induct
    [where P = "\<lambda>net s r. \<not> ((\<forall>t. events net t = Timeout) \<and> valid s \<and> length (available s) < 4)",
      OF _ h])
  fix f :: "network \<Rightarrow> socket \<Rightarrow> (bool \<times> socket) option" and net s r
  assume IH: "\<And>n' s' y. f n' s' = Some y \<Longrightarrow>
      \<not> ((\<forall>t. events n' t = Timeout) \<and> valid s' \<and> length (available s') < 4)"
    and eq: "(if length (available s) < 4
      then if \<not> valid s then Some (False, s\<lparr>logged := logged s @ [''Stale request'']\<rparr>)
           else f net (snd (wait net s))
      else Some (True, s)) = Some r"
  show "\<not> ((\<forall>t. events net t = Timeout) \<and> valid s \<and> length (available s) < 4)"
  proof
    assume a: "(\<forall>t. events net t = Timeout) \<and> valid s \<and> length (available s) < 4"
    then have w: "snd (wait net s) = s\<lparr>waits := Suc (waits s)\<rparr>" by (simp add: wait_def)
    from a eq have "f net (snd (wait net s)) = Some r" by simp
    then have "\<not> ((\<forall>t. events net t = Timeout) \<and> valid (snd (wait net s))
        \<and> length (available (snd (wait net s))) < 4)"
      by (rule IH)
    with a w show False by simp
  qed
qed

lemma waitForHeader_stale:
  assumes "length (available s) < 4" "valid s" "waits s \<le> k"
    and "\<forall>t. waits s \<le> t \<and> t < k \<longrightarrow> events net t = Timeout"
    and "events net k = Closed"
  shows "waitForHeader net s =
     Some (False, s\<lparr>valid := False, waits := Suc k, logged := logged s @ [''Stale request'']\<rparr>)"
  using assms
proof (induction "k - waits s" arbitrary: s)
  case 0
  then have k: "waits s = k" by simp
  with 0 have w: "snd (wait net s) = s\<lparr>valid := False, waits := Suc k\<rparr>" by (simp add: wait_def)
  have "waitForHeader net s = waitForHeader net (snd (wait net s))"
    using 0 by (subst waitForHeader.simps) simp
  also have "\<dots> = Some (False, s\<lparr>valid := False, waits := Suc k, logged := logged s @ [''Stale request'']\<rparr>)"
    using 0 by (subst waitForHeader.simps) (simp add: w)
  finally show ?case .
next
  case (Suc n)
  then have lt: "waits s < k" by simp
  with Suc.prems have "events net (waits s) = Timeout" by simp
  then have w: "snd (wait net s) = s\<lparr>waits := Suc (waits s)\<rparr>" by (simp add: wait_def)
  have "waitForHeader net s = waitForHeader net (s\<lparr>waits := Suc (waits s)\<rparr>)"
    using Suc.prems by (subst waitForHeader.simps) (simp add: w)
  also have "\<dots> = Some (False, (s\<lparr>waits := Suc (waits s)\<rparr>)\<lparr>valid := False, waits := Suc k,
       logged := logged (s\<lparr>waits := Suc (waits s)\<rparr>) @ [''Stale request'']\<rparr>)"
  proof (rule Suc.hyps(1))
    show "n = k - waits (s\<lparr>waits := Suc (waits s)\<rparr>)" using Suc.hyps(2) by simp
  qed (use Suc.prems lt in auto)
  finally show ?case by simp
qed

lemma sendMessageSynchronously_stale:
  assumes "connects net"
    and "\<forall>t<k. events net t = Timeout"
    and "events net k = Closed"
  shows "\<exists>s. sendMessageSynchronously net ba = Some ([], s) \<and> waits s = Suc k
             \<and> written s = writeUInt32 (length ba) @ ba \<and> logged s = [''Stale request'']"
proof -
  let ?s0 = "\<lparr>available = [], valid = True, waits = 0,
               written = writeUInt32 (length ba) @ ba, logged = []\<rparr>"
  show ?thesis
  proof (cases k)
    case 0
    with assms have w: "snd (wait net ?s0) = ?s0\<lparr>valid := False, waits := Suc 0\<rparr>"
      by (simp add: wait_def)
    have "waitForHeader net (?s0\<lparr>valid := False, waits := Suc 0\<rparr>)
        = Some (False, ?s0\<lparr>valid := False, waits := Suc 0, logged := [''Stale request'']\<rparr>)"
      by (subst waitForHeader.simps) simp
    with w 0 assms(1) show ?thesis by (simp add: sendMessageSynchronously_def)
  next
    case (Suc j)
    with assms have w: "snd (wait net ?s0) = ?s0\<lparr>waits := Suc 0\<rparr>"
      by (simp add: wait_def)
    have "waitForHeader net (?s0\<lparr>waits := Suc 0\<rparr>) =
        Some (False, (?s0\<lparr>waits := Suc 0\<rparr>)\<lparr>valid := False, waits := Suc k,
          logged := logged (?s0\<lparr>waits := Suc 0\<rparr>) @ [''Stale request'']\<rparr>)"
      by (rule waitForHeader_stale) (use assms Suc in auto)
    with w assms(1) show ?thesis by (simp add: sendMessageSynchronously_def)
  qed
qed

lemma sendMessageSynchronously_silent:
  assumes "connects net" and "\<forall>t. events net t = Timeout"
  shows "sendMessageSynchronously net ba = None"
proof -
  let ?s0 = "\<lparr>available = [], valid = True, waits = 0,
               written = writeUInt32 (length ba) @ ba, logged = []\<rparr>"
  have w: "snd (wait net ?s0) = ?s0\<lparr>waits := Suc 0\<rparr>" using assms by (simp add: wait_def)
  have "waitForHeader net (?s0\<lparr>waits := Suc 0\<rparr>) = None"
  proof (cases "waitForHeader net (?s0\<lparr>waits := Suc 0\<rparr>)")
    case (Some r)
    from waitForHeader_silent [OF Some] assms show ?thesis by simp
  qed simp
  with w assms show ?thesis by (simp add: sendMessageSynchronously_def)
qed

text \<open>
  C9, as the code has it. Suppose the connection succeeds and no byte ever arrives. If
  the connection goes away during the wait of index \<open>k\<close>, the function returns the empty
  answer after \<open>k + 1\<close> waits, with the warning of line 96. If it never goes away, the
  function never returns: the loop of lines 94 to 100 ends only on four bytes or on an
  invalid socket, and the time-out of \<^verbatim>\<open>waitForReadyRead(1000)\<close> does not end it.
\<close>

theorem sendMessageSynchronously_no_bytes:
  assumes "connects net" and "\<forall>t bs. events net t \<noteq> Data bs"
  shows "(\<forall>k. events net k = Closed \<and> (\<forall>t<k. events net t \<noteq> Closed) \<longrightarrow>
            (\<exists>s. sendMessageSynchronously net ba = Some ([], s) \<and> waits s = Suc k
                 \<and> logged s = [''Stale request'']))
         \<and> ((\<forall>k. events net k \<noteq> Closed) \<longrightarrow> sendMessageSynchronously net ba = None)"
proof (intro conjI allI impI)
  fix k assume k: "events net k = Closed \<and> (\<forall>t<k. events net t \<noteq> Closed)"
  have "\<forall>t<k. events net t = Timeout"
  proof (intro allI impI)
    fix t assume "t < k"
    with k assms(2) show "events net t = Timeout" by (cases "events net t") auto
  qed
  with sendMessageSynchronously_stale [OF assms(1) _ conjunct1 [OF k], of ba]
  show "\<exists>s. sendMessageSynchronously net ba = Some ([], s) \<and> waits s = Suc k
                 \<and> logged s = [''Stale request'']" by blast
next
  assume n: "\<forall>k. events net k \<noteq> Closed"
  have "\<forall>t. events net t = Timeout"
  proof
    fix t from n assms(2) show "events net t = Timeout" by (cases "events net t") auto
  qed
  with assms(1) show "sendMessageSynchronously net ba = None"
    by (rule sendMessageSynchronously_silent)
qed

theorem sendMessageSynchronously_no_bytes_witness:
  "(\<exists>s. sendMessageSynchronously (silentUntil 3) ''command=gmic_qt_detach'' = Some ([], s)
        \<and> waits s = 4)
   \<and> sendMessageSynchronously silent ''command=gmic_qt_detach'' = None"
proof -
  have a: "connects (silentUntil 3)" "connects silent" by (simp_all add: silentUntil_def silent_def)
  have b: "\<forall>t bs. events (silentUntil 3) t \<noteq> Data bs" "\<forall>t bs. events silent t \<noteq> Data bs"
    by (simp_all add: silentUntil_def silent_def)
  have c: "events (silentUntil 3) 3 = Closed \<and> (\<forall>t<3. events (silentUntil 3) t \<noteq> Closed)"
    by (simp add: silentUntil_def)
  have d: "\<forall>k. events silent k \<noteq> Closed" by (simp add: silent_def)
  show ?thesis
    using sendMessageSynchronously_no_bytes [OF a(1) b(1), of "''command=gmic_qt_detach''"] c
      sendMessageSynchronously_no_bytes [OF a(2) b(2), of "''command=gmic_qt_detach''"] d
    by auto
qed

text \<open>The socket stays valid and silent: the function does not return. The claim C9 as it
  is written fails there.\<close>

theorem sendMessageSynchronously_hangs:
  "sendMessageSynchronously silent ''command=gmic_qt_get_image_size'' = None"
  by (rule sendMessageSynchronously_silent) (simp_all add: silent_def)

text \<open>An exchange that goes well: the host answers \<open>640,480\<close> in two pieces, and the
  function returns the answer and has written the acknowledgement.\<close>

lemma sendMessageSynchronously_example:
  "\<exists>s. sendMessageSynchronously
        \<lparr>connects = True,
         events = (\<lambda>t. if t = 1 then Data [CHR 0x00, CHR 0x00, CHR 0x00, CHR 0x07, CHR ''6'', CHR ''4'']
                        else if t = 2 then Data ''0,480'' else Timeout),
         uninitialised = (\<lambda>n. CHR 0x00)\<rparr> ''command=gmic_qt_get_image_size''
      = Some (''640,480'', s)
      \<and> written s = writeUInt32 (length ''command=gmic_qt_get_image_size'')
            @ ''command=gmic_qt_get_image_size'' @ ''ack''"
  by (simp add: sendMessageSynchronously_def wait_def waitForHeader.simps readAnswer.simps
      readUInt32_def readRawData_def Let_def)

end
